theory Spec2Isabelle
  imports Main "HOL-Library.Multiset"
begin

section \<open>The output logger of amdsmi\_cli (amdsmi\_logger.py)\<close>

text \<open>
  A shallow embedding of the class \<open>AMDSMILogger\<close>: the flattening of nested
  telemetry records, the three \<open>_store_output_*\<close> methods, the capture methods and the
  JSON and CSV emitters. Python dictionaries keep their insertion order, so a dictionary
  is an association list; the methods mutate \<open>self\<close>, so each one takes the logger and
  returns the logger it leaves behind, also when it raises.
\<close>

subsection \<open>Values and dictionaries\<close>

text \<open>
  The values a telemetry record holds. Keys are strings. Floating-point numbers are left
  out: no method of the logger computes with them.
\<close>

datatype pyval =
    VNone
  | VBool bool
  | VInt int
  | VStr string
  | VList "pyval list"
  | VDict "(string \<times> pyval) list"

type_synonym pydict = "(string \<times> pyval) list"

fun is_dict :: "pyval \<Rightarrow> bool" where
  "is_dict (VDict d) = True"
| "is_dict v = False"

fun is_list :: "pyval \<Rightarrow> bool" where
  "is_list (VList xs) = True"
| "is_list v = False"

text \<open>Python's truth value of an object, as \<open>not self.output\<close> reads it.\<close>

fun truthy :: "pyval \<Rightarrow> bool" where
  "truthy VNone = False"
| "truthy (VBool b) = b"
| "truthy (VInt i) = (i \<noteq> 0)"
| "truthy (VStr s) = (s \<noteq> [])"
| "truthy (VList xs) = (xs \<noteq> [])"
| "truthy (VDict d) = (d \<noteq> [])"

text \<open>
  \<open>d[k] = v\<close>: an existing key keeps its position and takes the new value, a new key is
  appended.
\<close>

fun dict_set :: "pydict \<Rightarrow> string \<Rightarrow> pyval \<Rightarrow> pydict" where
  "dict_set [] k v = [(k, v)]"
| "dict_set ((k', v') # d) k v =
     (if k' = k then (k, v) # d else (k', v') # dict_set d k v)"

text \<open>\<open>d.update(other)\<close>: one assignment per item of \<open>other\<close>, in its order.\<close>

definition dict_update :: "pydict \<Rightarrow> pydict \<Rightarrow> pydict" where
  "dict_update d other = foldl (\<lambda>acc (k, v). dict_set acc k v) d other"

text \<open>\<open>d.pop(k)\<close>: the value and the dictionary without the key; \<open>None\<close> is KeyError.\<close>

definition dict_pop :: "pydict \<Rightarrow> string \<Rightarrow> (pyval \<times> pydict) option" where
  "dict_pop d k =
     (case map_of d k of
        None \<Rightarrow> None
      | Some v \<Rightarrow> Some (v, filter (\<lambda>(k', v'). k' \<noteq> k) d))"

text \<open>\<open>p in s\<close> on strings: \<open>p\<close> occurs in \<open>s\<close> as a contiguous run.\<close>

fun py_in :: "string \<Rightarrow> string \<Rightarrow> bool" where
  "py_in p [] = (p = [])"
| "py_in p (c # cs) = (take (length p) (c # cs) = p \<or> py_in p cs)"

subsection \<open>flatten\_dict\<close>

text \<open>
  Lines 183 to 188: the children of a dictionary with more than one item; a child that
  is itself a dictionary is replaced by its own items, their keys joined to the child's
  key with an underscore.
\<close>

definition add_prefixed :: "string \<Rightarrow> pydict \<Rightarrow> pydict \<Rightarrow> pydict" where
  "add_prefixed parent_key value_with_parent_key child_dict =
     foldl (\<lambda>vw (child_key, value1). dict_set vw (parent_key @ ''_'' @ child_key) value1)
           value_with_parent_key child_dict"

fun join_step :: "pydict \<Rightarrow> string \<times> pyval \<Rightarrow> pydict" where
  "join_step vw (parent_key, VDict child_dict) = add_prefixed parent_key vw child_dict"
| "join_step vw (parent_key, child) = dict_set vw parent_key child"

definition join_children :: "pydict \<Rightarrow> pydict" where
  "join_children value = foldl join_step [] value"

text \<open>Line 192: the keys whose children take the key as a prefix under gpuvsmi.\<close>

definition gpuv_parent_keys :: "string list" where
  "gpuv_parent_keys = [''asic'', ''bus'', ''pcie'', ''vbios'', ''board'', ''limit'']"

text \<open>
  Lines 181 to 196: what \<open>value\<close> has become when \<open>flatten_dict\<close> is called on it again.
\<close>

definition reshape :: "bool \<Rightarrow> string \<Rightarrow> pydict \<Rightarrow> pydict" where
  "reshape gpuv key value =
     (let value1 = (if length value > 1 then join_children value else value)
      in if gpuv \<and> key \<in> set gpuv_parent_keys
         then add_prefixed key [] value1 else value1)"

abbreviation dsize :: "pydict \<Rightarrow> nat" where
  "dsize d \<equiv> size_list (size_prod (\<lambda>k. 0) size) d"

lemma dsize_dict_set: "dsize (dict_set d k v) \<le> Suc (Suc (size v + dsize d))"
  by (induction d k v rule: dict_set.induct) auto

lemma dsize_add_prefixed: "dsize (add_prefixed p vw cd) \<le> dsize vw + dsize cd"
  unfolding add_prefixed_def
proof (induction cd arbitrary: vw)
  case Nil
  then show ?case by simp
next
  case (Cons e cd)
  obtain k v where e: "e = (k, v)" by (cases e)
  show ?case
    using Cons.IH [of "dict_set vw (p @ ''_'' @ k) v"] dsize_dict_set [of vw "p @ ''_'' @ k" v]
    by (simp add: e)
qed

lemma dsize_join_step: "dsize (join_step vw e) \<le> dsize vw + dsize [e]"
proof (cases e)
  case (Pair k v)
  show ?thesis
    using dsize_add_prefixed [of k vw] dsize_dict_set [of vw k v]
    by (cases v) (auto simp: Pair intro: le_SucI)
qed

lemma dsize_foldl_join_step: "dsize (foldl join_step acc d) \<le> dsize acc + dsize d"
proof (induction d arbitrary: acc)
  case Nil
  then show ?case by simp
next
  case (Cons e d)
  show ?case
    using Cons.IH [of "join_step acc e"] dsize_join_step [of acc e] by simp
qed

lemma dsize_join_children: "dsize (join_children d) \<le> dsize d"
  using dsize_foldl_join_step [of "[]" d] by (simp add: join_children_def)

lemma dsize_reshape: "dsize (reshape g key d) \<le> dsize d"
  using dsize_join_children [of d] dsize_add_prefixed [of key "[]" d]
    dsize_add_prefixed [of key "[]" "join_children d"]
  by (auto simp: reshape_def Let_def)

lemma dsize_member: "(k, VDict c) \<in> set d \<Longrightarrow> dsize c < dsize d"
  by (induction d) auto

text \<open>
  The method itself, on a dictionary; \<open>gpuv\<close> is \<open>self.is_gpuvsmi_compatibility()\<close>.
  The recursive call is on the reshaped value, which is no larger than the value.
\<close>

function flatten_dict :: "bool \<Rightarrow> pydict \<Rightarrow> pydict" where
  "flatten_dict gpuv target_dict =
     foldl (\<lambda>output_dict (key, value).
              case value of
                VDict d \<Rightarrow> dict_update output_dict (flatten_dict gpuv (reshape gpuv key d))
              | _ \<Rightarrow> dict_set output_dict key value)
           [] target_dict"
  by pat_completeness auto
termination
proof (relation "measure (\<lambda>(g, d). dsize d)", goal_cases)
  case 1
  show ?case by simp
next
  case (2 gpuv target_dict out e key "value" d)
  then have "(key, VDict d) \<in> set target_dict" by simp
  then show ?case
    using dsize_member [of key d target_dict] dsize_reshape [of gpuv key d] by simp
qed

declare flatten_dict.simps [simp del]

text \<open>
  Called on anything but a dictionary, the method fails at \<open>target_dict.items()\<close>.
\<close>

subsection \<open>The logger\<close>

datatype error =
    TypeError_not_callable
  | TypeError_item_assignment
  | AttributeError
  | UnboundLocalError
  | IndexError
  | ValueError

datatype destination = Stdout | File string

text \<open>
  \<open>store_watch_output\<close> appends a reference to \<open>self.output\<close> or to
  \<open>self.multiple_device_output\<close>, not a copy, and the store methods go on mutating the
  object \<open>self.output\<close> points to. So the objects live in a store: \<open>heap\<close> maps an
  address to the object there, \<open>output_ref\<close> is the address \<open>self.output\<close> holds,
  \<open>next_ref\<close> the address the next new object takes. The list
  \<open>self.multiple_device_output\<close> is one object for the life of the logger and holds
  addresses; a watch sample holds a timestamp and what its \<open>values\<close> refer to.
\<close>

datatype watch_values = OutputObj nat | MultiList

record logger =
  heap :: "nat \<Rightarrow> pyval"
  output_ref :: nat
  next_ref :: nat
  multiple_device_output :: "nat list"
  watch_output :: "(int \<times> watch_values) list"
  compatibility :: string
  format :: string
  destination :: destination

text \<open>\<open>__init__\<close>: an empty dictionary, two empty lists and the configuration.\<close>

definition init :: "string \<Rightarrow> string \<Rightarrow> destination \<Rightarrow> logger" where
  "init compatibility_arg format_arg destination_arg =
     \<lparr>heap = (\<lambda>a. VDict []), output_ref = 0, next_ref = 1,
      multiple_device_output = [], watch_output = [],
      compatibility = compatibility_arg, format = format_arg,
      destination = destination_arg\<rparr>"

text \<open>The object \<open>self.output\<close> points to.\<close>

definition self_output :: "logger \<Rightarrow> pyval" where
  "self_output st = heap st (output_ref st)"

text \<open>A change of the object \<open>self.output\<close> points to, in place.\<close>

definition mutate_output :: "logger \<Rightarrow> pyval \<Rightarrow> logger" where
  "mutate_output st v = st\<lparr>heap := (heap st)(output_ref st := v)\<rparr>"

text \<open>\<open>self.output = v\<close> for a new object \<open>v\<close>.\<close>

definition assign_output :: "logger \<Rightarrow> pyval \<Rightarrow> logger" where
  "assign_output st v =
     st\<lparr>heap := (heap st)(next_ref st := v),
        output_ref := next_ref st,
        next_ref := Suc (next_ref st)\<rparr>"

definition is_json_format :: "logger \<Rightarrow> bool" where
  "is_json_format st = (format st = ''json'')"

definition is_csv_format :: "logger \<Rightarrow> bool" where
  "is_csv_format st = (format st = ''csv'')"

definition is_human_readable_format :: "logger \<Rightarrow> bool" where
  "is_human_readable_format st = (format st = ''human_readable'')"

definition is_amdsmi_compatibility :: "logger \<Rightarrow> bool" where
  "is_amdsmi_compatibility st = (compatibility st = ''amdsmi'')"

definition is_rocmsmi_compatibility :: "logger \<Rightarrow> bool" where
  "is_rocmsmi_compatibility st = (compatibility st = ''rocmsmi'')"

definition is_gpuvsmi_compatibility :: "logger \<Rightarrow> bool" where
  "is_gpuvsmi_compatibility st = (compatibility st = ''gpuvsmi'')"

subsection \<open>The store methods\<close>

text \<open>
  A method returns \<open>Inr\<close> the logger it leaves, or \<open>Inl\<close> the exception with the logger
  as it is when the exception is raised. \<open>self.output['gpu'] = ...\<close> raises TypeError
  when \<open>self.output\<close> is not a dictionary. The last branch of each method calls the
  module \<open>amdsmi_cli_exceptions\<close> (line 31 imports the module, and the call is on that
  name), which raises TypeError before any \<open>raise\<close> is reached.
\<close>

text \<open>
  Lines 233 to 239, shared word for word by lines 264 to 270: the merge of the csv
  format, on the dictionary \<open>self.output\<close> holds. \<open>Inl\<close> is the dictionary left behind
  when \<open>flatten_dict\<close> fails on data that is no dictionary.
\<close>

definition csv_merge :: "bool \<Rightarrow> pydict \<Rightarrow> int \<Rightarrow> string \<Rightarrow> pyval \<Rightarrow> pydict + pydict" where
  "csv_merge gpuv out gpu_id argument data =
     (let out1 = dict_set out ''gpu'' (VInt gpu_id) in
      if argument = ''values'' \<or> is_dict data then
        (case data of
           VDict d \<Rightarrow> Inr (dict_update out1 (flatten_dict gpuv d))
         | _ \<Rightarrow> Inl out1)
      else Inr (dict_set out1 argument data))"

definition store_output_amdsmi ::
    "logger \<Rightarrow> int \<Rightarrow> string \<Rightarrow> pyval \<Rightarrow> (error \<times> logger) + logger" where
  "store_output_amdsmi st gpu_id argument data =
     (if is_json_format st \<or> is_human_readable_format st then
        (case self_output st of
           VDict out \<Rightarrow>
             (let out1 = dict_set out ''gpu'' (VInt gpu_id) in
              case data of
                VDict d \<Rightarrow>
                  if argument = ''values''
                  then Inr (mutate_output st (VDict (dict_update out1 d)))
                  else Inr (mutate_output st (VDict (dict_set out1 argument data)))
              | _ \<Rightarrow> Inr (mutate_output st (VDict (dict_set out1 argument data))))
         | _ \<Rightarrow> Inl (TypeError_item_assignment, st))
      else if is_csv_format st then
        (case self_output st of
           VDict out \<Rightarrow>
             (case csv_merge (is_gpuvsmi_compatibility st) out gpu_id argument data of
                Inr merged \<Rightarrow> Inr (mutate_output st (VDict merged))
              | Inl out1 \<Rightarrow> Inl (AttributeError, mutate_output st (VDict out1)))
         | _ \<Rightarrow> Inl (TypeError_item_assignment, st))
      else Inl (TypeError_not_callable, st))"

definition store_output_rocmsmi ::
    "logger \<Rightarrow> int \<Rightarrow> string \<Rightarrow> pyval \<Rightarrow> (error \<times> logger) + logger" where
  "store_output_rocmsmi st gpu_id argument data =
     (if is_json_format st then Inr st
      else if is_csv_format st then Inr st
      else if is_human_readable_format st then Inr st
      else Inl (TypeError_not_callable, st))"

text \<open>
  Lines 272 to 286: the pass over the merged dictionary. The \<open>pop\<close> of line 284 is of
  the key the step has just set, so it finds it.
\<close>

fun gpuv_step :: "pydict \<Rightarrow> string \<times> pyval \<Rightarrow> pydict" where
  "gpuv_step gpuv_flat_dict (key, value) =
     (let g1 = dict_set gpuv_flat_dict key value;
          g2 = (case value of
                  VStr s \<Rightarrow> if py_in ''AMDSMI_STATUS'' s
                            then dict_set g1 key (VStr ''N/A'') else g1
                | _ \<Rightarrow> g1)
      in if key \<in> set [''bdf'', ''uuid''] then
           (case dict_pop g2 key of
              Some (v, g3) \<Rightarrow> dict_set g3 (''gpu_'' @ key) v
            | None \<Rightarrow> g2)
         else g2)"

definition gpuv_flat :: "pydict \<Rightarrow> pydict" where
  "gpuv_flat out = foldl gpuv_step [] out"

definition store_output_gpuvsmi ::
    "logger \<Rightarrow> int \<Rightarrow> string \<Rightarrow> pyval \<Rightarrow> (error \<times> logger) + logger" where
  "store_output_gpuvsmi st gpu_id argument data =
     (if is_json_format st \<or> is_human_readable_format st then
        (case self_output st of
           VDict out \<Rightarrow>
             Inr (mutate_output st
                    (VDict (dict_set (dict_set out ''gpu'' (VInt gpu_id)) argument data)))
         | _ \<Rightarrow> Inl (TypeError_item_assignment, st))
      else if is_csv_format st then
        (case self_output st of
           VDict out \<Rightarrow>
             (case csv_merge (is_gpuvsmi_compatibility st) out gpu_id argument data of
                Inr merged \<Rightarrow>
                  Inr (assign_output (mutate_output st (VDict merged))
                         (VDict (gpuv_flat merged)))
              | Inl out1 \<Rightarrow> Inl (AttributeError, mutate_output st (VDict out1)))
         | _ \<Rightarrow> Inl (TypeError_item_assignment, st))
      else Inl (TypeError_not_callable, st))"

text \<open>
  \<open>store_output\<close>; \<open>get_gpu_id\<close> is \<open>get_gpu_id_from_device_handle\<close> of the helpers, which
  are not part of this file. With a compatibility that is none of the three, no branch
  is taken.
\<close>

definition store_output ::
    "('h \<Rightarrow> int) \<Rightarrow> logger \<Rightarrow> 'h \<Rightarrow> string \<Rightarrow> pyval \<Rightarrow> (error \<times> logger) + logger" where
  "store_output get_gpu_id st device_handle argument data =
     (let gpu_id = get_gpu_id device_handle in
      if is_amdsmi_compatibility st then store_output_amdsmi st gpu_id argument data
      else if is_rocmsmi_compatibility st then store_output_rocmsmi st gpu_id argument data
      else if is_gpuvsmi_compatibility st then store_output_gpuvsmi st gpu_id argument data
      else Inr st)"

subsection \<open>Capturing records and samples\<close>

definition store_multiple_device_output :: "logger \<Rightarrow> logger" where
  "store_multiple_device_output st =
     (if \<not> truthy (self_output st) then st
      else assign_output
             (st\<lparr>multiple_device_output := multiple_device_output st @ [output_ref st]\<rparr>)
             (VDict []))"

text \<open>\<open>now\<close> is \<open>int(time.time())\<close>.\<close>

definition store_watch_output :: "logger \<Rightarrow> bool \<Rightarrow> int \<Rightarrow> logger" where
  "store_watch_output st multiple_devices now =
     st\<lparr>watch_output := watch_output st @
          [(now, if multiple_devices then MultiList else OutputObj (output_ref st))]\<rparr>"

text \<open>What the two lists hold when an emitter reads them.\<close>

definition multiple_device_value :: "logger \<Rightarrow> pyval list" where
  "multiple_device_value st = map (heap st) (multiple_device_output st)"

fun watch_sample :: "logger \<Rightarrow> int \<times> watch_values \<Rightarrow> pyval" where
  "watch_sample st (t, OutputObj a) =
     VDict [(''timestamp'', VInt t), (''values'', heap st a)]"
| "watch_sample st (t, MultiList) =
     VDict [(''timestamp'', VInt t), (''values'', VList (multiple_device_value st))]"

definition watch_value :: "logger \<Rightarrow> pyval" where
  "watch_value st = VList (map (watch_sample st) (watch_output st))"

subsection \<open>The emitters\<close>

text \<open>
  What the emitters write to: the lines printed so far and the content of each file, by
  path (a file that does not exist reads as empty, which is what opening it for append
  makes of it).
\<close>

record world =
  stdout :: "string list"
  files :: "string \<Rightarrow> string"

text \<open>
  \<open>_print_json_output\<close>; \<open>dumps\<close> is \<open>json.dumps(..., indent=4)\<close> of the standard
  library, the text \<open>json.dump\<close> writes.
\<close>

definition print_json_output ::
    "(pyval \<Rightarrow> string) \<Rightarrow> logger \<Rightarrow> world \<Rightarrow> bool \<Rightarrow> bool \<Rightarrow> world" where
  "print_json_output dumps st w multiple_device_output_arg watch_output_arg =
     (let json_output = (if multiple_device_output_arg
                         then VList (multiple_device_value st) else self_output st)
      in case destination st of
           Stdout \<Rightarrow>
             if watch_output_arg then w
             else w\<lparr>stdout := stdout w @ [dumps json_output]\<rparr>
         | File p \<Rightarrow>
             if watch_output_arg
             then w\<lparr>files := (files w)(p := dumps (watch_value st))\<rparr>
             else w\<lparr>files := (files w)(p := files w p @ dumps json_output)\<rparr>)"

text \<open>
  \<open>csv.DictWriter\<close> of the standard library with its defaults, \<open>restval=''\<close> and
  \<open>extrasaction='raise'\<close>: a row with a key that is no field name raises ValueError, a
  field name the row lacks gives the empty string. \<open>writerow\<close> is the text the
  underlying writer makes of one row of cells.
\<close>

definition dict_to_list :: "string list \<Rightarrow> pyval \<Rightarrow> error + pyval list" where
  "dict_to_list fieldnames rowdict =
     (case rowdict of
        VDict d \<Rightarrow>
          if list_ex (\<lambda>k. k \<notin> set fieldnames) (map fst d) then Inl ValueError
          else Inr (map (\<lambda>k. case map_of d k of Some v \<Rightarrow> v | None \<Rightarrow> VStr []) fieldnames)
      | _ \<Rightarrow> Inl AttributeError)"

definition writeheader :: "(pyval list \<Rightarrow> string) \<Rightarrow> string list \<Rightarrow> string" where
  "writeheader writerow fieldnames = writerow (map VStr fieldnames)"

text \<open>
  \<open>writerows\<close> writes row after row and stops at the first row that raises; the rows
  before it are written.
\<close>

fun writerows ::
    "(pyval list \<Rightarrow> string) \<Rightarrow> string list \<Rightarrow> string \<Rightarrow> pyval list \<Rightarrow> error option \<times> string" where
  "writerows writerow fieldnames written [] = (None, written)"
| "writerows writerow fieldnames written (r # rs) =
     (case dict_to_list fieldnames r of
        Inl e \<Rightarrow> (Some e, written)
      | Inr cells \<Rightarrow> writerows writerow fieldnames (written @ writerow cells) rs)"

text \<open>
  Lines 367 to 371: \<open>stored_csv_output\<close> is bound in the first branch, and in the second
  only when \<open>self.output\<close> is no list; \<open>None\<close> is the unbound local.
\<close>

definition stored_csv_output :: "logger \<Rightarrow> bool \<Rightarrow> pyval list option" where
  "stored_csv_output st multiple_device_output_arg =
     (if multiple_device_output_arg then Some (multiple_device_value st)
      else if \<not> is_list (self_output st) then Some [self_output st]
      else None)"

text \<open>
  \<open>_print_csv_output\<close>. On stdout the text is built in memory and printed at the end,
  so nothing is printed when a row raises; a file has received the header and the rows
  before the one that raises.
\<close>

definition print_csv_output ::
    "(pyval list \<Rightarrow> string) \<Rightarrow> logger \<Rightarrow> world \<Rightarrow> bool \<Rightarrow> bool \<Rightarrow> (error \<times> world) + world" where
  "print_csv_output writerow st w multiple_device_output_arg watch_output_arg =
     (if watch_output_arg then Inr w
      else
        case stored_csv_output st multiple_device_output_arg of
          None \<Rightarrow> Inl (UnboundLocalError, w)
        | Some [] \<Rightarrow> Inl (IndexError, w)
        | Some (VDict first # rest) \<Rightarrow>
            (let csv_header = map fst first;
                 (err, csv_text) = writerows writerow csv_header
                                 (writeheader writerow csv_header) (VDict first # rest)
             in case destination st of
                  Stdout \<Rightarrow>
                    (case err of
                       Some e \<Rightarrow> Inl (e, w)
                     | None \<Rightarrow>
                         Inr (w\<lparr>stdout := stdout w @
                                [if is_gpuvsmi_compatibility st
                                 then filter (\<lambda>c. c \<noteq> CHR 0x22) csv_text else csv_text]\<rparr>))
                | File p \<Rightarrow>
                    (let w' = w\<lparr>files := (files w)(p := files w p @ csv_text)\<rparr>
                     in case err of Some e \<Rightarrow> Inl (e, w') | None \<Rightarrow> Inr w'))
        | Some (_ # rest) \<Rightarrow> Inl (AttributeError, w))"

subsection \<open>Notions the properties are stated in\<close>

text \<open>
  The values a record holds that are no dictionaries, reached through dictionaries only,
  in the order of the items: the leaves \<open>flatten_dict\<close> is to keep. A list is a leaf, as
  \<open>flatten_dict\<close> copies it whole.
\<close>

fun leaves :: "pyval \<Rightarrow> pyval list" where
  "leaves (VDict d) = concat (map (\<lambda>(k, v). leaves v) d)"
| "leaves v = [v]"

text \<open>
  The assignments lines 183 to 188 make to \<open>value_with_parent_key\<close>, in their order: one
  for each item of a child that is a dictionary, under its key joined to the key of the
  child, and one for any other child, under its own key.
\<close>

fun join_item :: "string \<times> pyval \<Rightarrow> pydict" where
  "join_item (parent_key, VDict child_dict) =
     map (\<lambda>(child_key, value1). (parent_key @ ''_'' @ child_key, value1)) child_dict"
| "join_item (parent_key, child) = [(parent_key, child)]"

definition join_writes :: "pydict \<Rightarrow> pydict" where
  "join_writes value = concat (map join_item value)"

text \<open>
  The assignments one call of \<open>flatten_dict\<close> makes to \<open>output_dict\<close>, in their order:
  that of line 200 for a value that is no dictionary; for a dictionary, the items of the
  result of the recursive call, which \<open>update\<close> assigns one by one (line 198).
\<close>

definition level_writes :: "bool \<Rightarrow> pydict \<Rightarrow> pydict" where
  "level_writes gpuv target_dict =
     concat (map (\<lambda>(key, value).
                    case value of
                      VDict d \<Rightarrow> flatten_dict gpuv (reshape gpuv key d)
                    | _ \<Rightarrow> [(key, value)])
                 target_dict)"

text \<open>
  No assignment of a run of \<open>flatten_dict\<close> falls on a key that is already there: the
  keys the call assigns to \<open>output_dict\<close> are distinct, for each dictionary with more than
  one item the keys lines 183 to 188 assign to are distinct, and the same holds of the
  recursive calls. (The prefix of lines 194 and 195 takes distinct keys to distinct
  keys.)
\<close>

function no_key_collision :: "bool \<Rightarrow> pydict \<Rightarrow> bool" where
  "no_key_collision gpuv target_dict =
     (distinct (map fst (level_writes gpuv target_dict)) \<and>
      list_all (\<lambda>(key, value).
                  case value of
                    VDict d \<Rightarrow> (length d > 1 \<longrightarrow> distinct (map fst (join_writes d))) \<and>
                               no_key_collision gpuv (reshape gpuv key d)
                  | _ \<Rightarrow> True)
               target_dict)"
  by pat_completeness auto
termination
proof (relation "measure (\<lambda>(g, d). dsize d)", goal_cases)
  case 1
  show ?case by simp
next
  case (2 gpuv target_dict e key "value" d)
  then have "(key, VDict d) \<in> set target_dict" by simp
  then show ?case
    using dsize_member [of key d target_dict] dsize_reshape [of gpuv key d] by simp
qed

declare no_key_collision.simps [simp del]

text \<open>
  The record a store call leaves in \<open>self.output\<close> when it returns; \<open>None\<close> when it
  raises.
\<close>

definition stored_record :: "(error \<times> logger) + logger \<Rightarrow> pyval option" where
  "stored_record r = (case r of Inr st' \<Rightarrow> Some (self_output st') | Inl x \<Rightarrow> None)"

text \<open>
  The value the merge of a store call assigns to the key \<open>gpu\<close>, after the first line of
  the branch has bound that key to the id of the device (lines 226, 233, 261 and 264);
  \<open>None\<close> when the merge assigns nothing to that key. \<open>update\<close> assigns the items of its
  argument one by one, so of two items with one key the later one stays.
\<close>

definition merge_writes_gpu :: "logger \<Rightarrow> string \<Rightarrow> pyval \<Rightarrow> pyval option" where
  "merge_writes_gpu st argument data =
     (if is_csv_format st then
        (if argument = ''values'' \<or> is_dict data
         then (case data of
                 VDict d \<Rightarrow> map_of (flatten_dict (is_gpuvsmi_compatibility st) d) ''gpu''
               | _ \<Rightarrow> None)
         else if argument = ''gpu'' then Some data else None)
      else if is_amdsmi_compatibility st \<and> argument = ''values'' \<and> is_dict data then
        (case data of VDict d \<Rightarrow> map_of (rev d) ''gpu'' | _ \<Rightarrow> None)
      else if argument = ''gpu'' then Some data else None)"

text \<open>
  The store of the csv format as the specification words it: the data always goes
  through \<open>flatten_dict\<close> and the result is merged. It is compared with
  \<open>store_output_amdsmi\<close> below.
\<close>

definition store_always_flatten ::
    "logger \<Rightarrow> int \<Rightarrow> pyval \<Rightarrow> (error \<times> logger) + logger" where
  "store_always_flatten st gpu_id data =
     (case self_output st of
        VDict out \<Rightarrow>
          (let out1 = dict_set out ''gpu'' (VInt gpu_id) in
           case data of
             VDict d \<Rightarrow>
               Inr (mutate_output st
                      (VDict (dict_update out1 (flatten_dict (is_gpuvsmi_compatibility st) d))))
           | _ \<Rightarrow> Inl (AttributeError, mutate_output st (VDict out1)))
      | _ \<Rightarrow> Inl (TypeError_item_assignment, st))"

text \<open>
  A string that holds \<open>AMDSMI_STATUS\<close>, and the value the gpuvsmi pass makes of a value.
\<close>

definition status_string :: "pyval \<Rightarrow> bool" where
  "status_string v = (case v of VStr s \<Rightarrow> py_in ''AMDSMI_STATUS'' s | _ \<Rightarrow> False)"

definition gpuv_mask :: "pyval \<Rightarrow> pyval" where
  "gpuv_mask v = (if status_string v then VStr ''N/A'' else v)"

text \<open>
  The keys the renaming of line 284 reads or writes; the other keys keep their place in
  the record.
\<close>

definition gpuv_renamed :: "string list" where
  "gpuv_renamed = [''bdf'', ''uuid'', ''gpu_bdf'', ''gpu_uuid'']"



text \<open>
  The cells \<open>csv.DictWriter\<close> makes of a record whose keys are all field names, and the
  text of a header row followed by one row for each record of a list.
\<close>

definition row_cells :: "string list \<Rightarrow> pydict \<Rightarrow> pyval list" where
  "row_cells fieldnames d =
     map (\<lambda>k. case map_of d k of Some v \<Rightarrow> v | None \<Rightarrow> VStr []) fieldnames"

definition csv_rows :: "(pyval list \<Rightarrow> string) \<Rightarrow> string list \<Rightarrow> pydict list \<Rightarrow> string" where
  "csv_rows writerow header ds =
     writerow (map VStr header) @ concat (map (\<lambda>d. writerow (row_cells header d)) ds)"

subsection \<open>Facts about dictionaries\<close>

lemma foldl_invariant:
  assumes "P acc" and "\<And>a e. e \<in> set xs \<Longrightarrow> P a \<Longrightarrow> P (f a e)"
  shows "P (foldl f acc xs)"
  using assms by (induction xs arbitrary: acc) auto

lemma keys_dict_set: "fst ` set (dict_set d k v) = insert k (fst ` set d)"
  by (induction d k v rule: dict_set.induct) auto

lemma distinct_dict_set:
  "distinct (map fst d) \<Longrightarrow> distinct (map fst (dict_set d k v))"
  by (induction d k v rule: dict_set.induct) (auto simp: keys_dict_set)

lemma set_dict_set: "set (dict_set d k v) \<subseteq> insert (k, v) (set d)"
  by (induction d k v rule: dict_set.induct) auto

lemma dict_set_fresh: "k \<notin> fst ` set d \<Longrightarrow> dict_set d k v = d @ [(k, v)]"
  by (induction d k v rule: dict_set.induct) auto

lemma distinct_dict_update:
  "distinct (map fst d) \<Longrightarrow> distinct (map fst (dict_update d other))"
  unfolding dict_update_def
  by (rule foldl_invariant) (auto simp: distinct_dict_set)

lemma set_dict_update: "set (dict_update d other) \<subseteq> set d \<union> set other"
  unfolding dict_update_def
proof (induction other arbitrary: d)
  case Nil
  then show ?case by simp
next
  case (Cons e other)
  obtain k v where e: "e = (k, v)" by (cases e)
  show ?case
    using Cons.IH [of "dict_set d k v"] set_dict_set [of d k v] by (auto simp: e)
qed

definition flat :: "pydict \<Rightarrow> bool" where
  "flat d = list_all (\<lambda>(k, v). \<not> is_dict v) d"

lemma flat_iff: "flat d \<longleftrightarrow> (\<forall>(k, v) \<in> set d. \<not> is_dict v)"
  by (auto simp: flat_def list_all_iff)

lemma flat_dict_set: "flat d \<Longrightarrow> \<not> is_dict v \<Longrightarrow> flat (dict_set d k v)"
  using set_dict_set [of d k v] by (auto simp: flat_iff)

lemma flat_dict_update: "flat d \<Longrightarrow> flat other \<Longrightarrow> flat (dict_update d other)"
  using set_dict_update [of d other] by (auto simp: flat_iff)

lemma distinct_flatten_dict: "distinct (map fst (flatten_dict g t))"
  unfolding flatten_dict.simps [of g t]
  by (rule foldl_invariant)
     (auto simp: distinct_dict_set distinct_dict_update split: pyval.splits)

lemma flat_flatten_dict: "flat (flatten_dict g t)"
proof (induction g t rule: flatten_dict.induct)
  case (1 gpuv target_dict)
  show ?case
    unfolding flatten_dict.simps [of gpuv target_dict]
  proof (rule foldl_invariant, goal_cases)
    case 1
    show ?case by (simp add: flat_def)
  next
    case (2 a e)
    obtain k v where e: "e = (k, v)" by (cases e)
    show ?case
      using 2 "1.IH" [of e k v]
      by (cases v) (auto simp: e flat_dict_set flat_dict_update)
  qed
qed

lemma flatten_flat_acc:
  "flat d \<Longrightarrow> distinct (map fst (acc @ d)) \<Longrightarrow>
   foldl (\<lambda>output_dict (key, value).
            case value of
              VDict c \<Rightarrow> dict_update output_dict (flatten_dict g (reshape g key c))
            | _ \<Rightarrow> dict_set output_dict key value) acc d = acc @ d"
proof (induction d arbitrary: acc)
  case Nil
  then show ?case by simp
next
  case (Cons e d)
  obtain k v where e: "e = (k, v)" by (cases e)
  from Cons.prems have k: "k \<notin> fst ` set acc" and v: "\<not> is_dict v" and d: "flat d"
    and dist: "distinct (map fst ((acc @ [(k, v)]) @ d))"
    by (auto simp: e flat_def)
  show ?case
    using Cons.IH [OF d dist] v by (cases v) (simp_all add: e dict_set_fresh [OF k])
qed

lemma flatten_dict_flat: "flat d \<Longrightarrow> distinct (map fst d) \<Longrightarrow> flatten_dict g d = d"
  using flatten_flat_acc [of d "[]" g] by (simp add: flatten_dict.simps [of g d])

subsection \<open>Facts about flatten\_dict\<close>

definition wsum :: "(pyval \<Rightarrow> pyval multiset) \<Rightarrow> pydict \<Rightarrow> pyval multiset" where
  "wsum w d = sum_list (map (\<lambda>(k, v). w v) d)"

lemma wsum_simps [simp]:
  "wsum w [] = {#}" "wsum w ((k, v) # d) = w v + wsum w d" "wsum w (a @ b) = wsum w a + wsum w b"
  by (simp_all add: wsum_def)

lemma wsum_vals: "wsum (\<lambda>v. {#v#}) d = mset (map snd d)"
  by (induction d) auto

lemma wsum_leaves: "wsum (\<lambda>v. mset (leaves v)) d = mset (leaves (VDict d))"
  by (induction d) auto

lemma dict_set_cases:
  obtains (fresh) "k \<notin> fst ` set d" "dict_set d k v = d @ [(k, v)]"
  | (replace) pre v0 post where "d = pre @ (k, v0) # post" "dict_set d k v = pre @ (k, v) # post"
proof (induction d k v arbitrary: thesis rule: dict_set.induct)
  case (1 k v)
  then show ?case by simp
next
  case (2 k' v' d k v)
  show ?case
  proof (cases "k' = k")
    case True
    show ?thesis
      using "2.prems"(2) [of "[]" v' d] True by simp
  next
    case False
    show ?thesis
    proof (rule "2.IH" [OF False])
      assume "k \<notin> fst ` set d" "dict_set d k v = d @ [(k, v)]"
      then show ?thesis using "2.prems"(1) False by simp
    next
      fix pre v0 post
      assume "d = pre @ (k, v0) # post" "dict_set d k v = pre @ (k, v) # post"
      then show ?thesis using "2.prems"(2) [of "(k', v') # pre" v0 post] False by simp
    qed
  qed
qed

lemma wsum_dict_set: "wsum w (dict_set d k v) \<subseteq># wsum w d + w v"
  by (rule dict_set_cases [where k = k and d = d and v = v]) auto

lemma wsum_dict_update: "wsum w (dict_update d other) \<subseteq># wsum w d + wsum w other"
  unfolding dict_update_def
proof (induction other arbitrary: d)
  case Nil
  then show ?case by simp
next
  case (Cons e other)
  obtain k v where e: "e = (k, v)" by (cases e)
  have "wsum w (foldl (\<lambda>acc (k, v). dict_set acc k v) (dict_set d k v) other)
          \<subseteq># wsum w (dict_set d k v) + wsum w other"
    by (rule Cons.IH)
  also have "\<dots> \<subseteq># (wsum w d + w v) + wsum w other"
    using wsum_dict_set [of w d k v] by (simp add: subset_mset.add_mono)
  finally show ?case by (simp add: e ac_simps)
qed

lemma wsum_add_prefixed: "wsum w (add_prefixed p vw cd) \<subseteq># wsum w vw + wsum w cd"
  unfolding add_prefixed_def
proof (induction cd arbitrary: vw)
  case Nil
  then show ?case by simp
next
  case (Cons e cd)
  obtain k v where e: "e = (k, v)" by (cases e)
  let ?vw = "dict_set vw (p @ ''_'' @ k) v"
  have "wsum w (foldl (\<lambda>vw (child_key, value1). dict_set vw (p @ ''_'' @ child_key) value1) ?vw cd)
          \<subseteq># wsum w ?vw + wsum w cd"
    by (rule Cons.IH)
  also have "\<dots> \<subseteq># (wsum w vw + w v) + wsum w cd"
    using wsum_dict_set [of w vw "p @ ''_'' @ k" v] by (simp add: subset_mset.add_mono)
  finally show ?case by (simp add: e ac_simps)
qed

abbreviation lv :: "pyval \<Rightarrow> pyval multiset" where
  "lv v \<equiv> mset (leaves v)"

lemma lv_VDict: "lv (VDict d) = wsum lv d"
  by (simp add: wsum_leaves)

lemma wsum_join_step: "wsum lv (join_step vw e) \<subseteq># wsum lv vw + wsum lv [e]"
proof (cases e)
  case (Pair k v)
  show ?thesis
  proof (cases v)
    case (VDict cd)
    show ?thesis
      using wsum_add_prefixed [of lv k vw cd] by (simp add: Pair VDict wsum_leaves)
  qed (use wsum_dict_set [of lv vw k v] in \<open>simp_all add: Pair\<close>)
qed

lemma wsum_foldl_join_step: "wsum lv (foldl join_step acc d) \<subseteq># wsum lv acc + wsum lv d"
proof (induction d arbitrary: acc)
  case Nil
  then show ?case by simp
next
  case (Cons e d)
  have "wsum lv (foldl join_step (join_step acc e) d) \<subseteq># wsum lv (join_step acc e) + wsum lv d"
    by (rule Cons.IH)
  also have "\<dots> \<subseteq># (wsum lv acc + wsum lv [e]) + wsum lv d"
    using wsum_join_step [of acc e] by (simp add: subset_mset.add_mono)
  finally show ?case by (cases e) (simp add: ac_simps)
qed

lemma wsum_join_children: "wsum lv (join_children d) \<subseteq># wsum lv d"
  using wsum_foldl_join_step [of "[]" d] by (simp add: join_children_def)

lemma wsum_reshape: "wsum lv (reshape g key d) \<subseteq># wsum lv d"
proof -
  have pre: "wsum lv (add_prefixed key [] c) \<subseteq># wsum lv c" for c
    using wsum_add_prefixed [of lv key "[]" c] by simp
  show ?thesis
    using wsum_join_children [of d] pre [of d] pre [of "join_children d"]
    by (auto simp: reshape_def Let_def intro: subset_mset.order_trans)
qed

lemma vals_flatten_acc:
  assumes IH: "\<And>k c. (k, VDict c) \<in> set t \<Longrightarrow>
                 wsum (\<lambda>v. {#v#}) (flatten_dict g (reshape g k c)) \<subseteq># wsum lv (reshape g k c)"
  shows "wsum (\<lambda>v. {#v#})
           (foldl (\<lambda>output_dict (key, value).
              case value of
                VDict c \<Rightarrow> dict_update output_dict (flatten_dict g (reshape g key c))
              | _ \<Rightarrow> dict_set output_dict key value) acc t)
         \<subseteq># wsum (\<lambda>v. {#v#}) acc + wsum lv t"
  using IH
proof (induction t arbitrary: acc)
  case Nil
  then show ?case by simp
next
  case (Cons e t)
  let ?step = "\<lambda>output_dict (key, value).
              case value of
                VDict c \<Rightarrow> dict_update output_dict (flatten_dict g (reshape g key c))
              | _ \<Rightarrow> dict_set output_dict key value"
  let ?V = "wsum (\<lambda>v. {#v#})"
  obtain k v where e: "e = (k, v)" by (cases e)
  have step: "?V (?step acc e) \<subseteq># ?V acc + wsum lv [e]"
  proof (cases v)
    case (VDict c)
    have "?V (dict_update acc (flatten_dict g (reshape g k c)))
            \<subseteq># ?V acc + ?V (flatten_dict g (reshape g k c))"
      by (rule wsum_dict_update)
    also have "\<dots> \<subseteq># ?V acc + wsum lv (reshape g k c)"
      using Cons.prems [of k c] by (simp add: e VDict)
    also have "\<dots> \<subseteq># ?V acc + wsum lv c"
      using wsum_reshape [of g k c] by simp
    finally show ?thesis by (simp add: e VDict wsum_leaves)
  qed (use wsum_dict_set [of "\<lambda>v. {#v#}" acc k v] in \<open>simp_all add: e\<close>)
  have "?V (foldl ?step (?step acc e) t) \<subseteq># ?V (?step acc e) + wsum lv t"
    by (rule Cons.IH) (use Cons.prems in auto)
  also have "\<dots> \<subseteq># (?V acc + wsum lv [e]) + wsum lv t"
    using step by (simp add: subset_mset.add_mono)
  finally show ?case by (simp add: e ac_simps)
qed

lemma vals_flatten_dict: "mset (map snd (flatten_dict g r)) \<subseteq># mset (leaves (VDict r))"
proof (induction g r rule: flatten_dict.induct)
  case (1 gpuv target_dict)
  have "wsum (\<lambda>v. {#v#}) (flatten_dict gpuv target_dict) \<subseteq># wsum lv target_dict"
    unfolding flatten_dict.simps [of gpuv target_dict]
    using vals_flatten_acc [of target_dict gpuv "[]"] "1.IH"
    by (simp add: wsum_vals wsum_leaves)
  then show ?case by (simp add: wsum_vals wsum_leaves)
qed

subsection \<open>Facts about key collisions\<close>

lemma dict_update_Nil: "dict_update d [] = d"
  by (simp add: dict_update_def)

lemma dict_update_Cons: "dict_update d ((k, v) # ws) = dict_update (dict_set d k v) ws"
  by (simp add: dict_update_def)

lemma dict_update_append: "dict_update d (a @ b) = dict_update (dict_update d a) b"
  by (simp add: dict_update_def)

lemma dict_update_fresh:
  "distinct (map fst ws) \<Longrightarrow> fst ` set ws \<inter> fst ` set d = {} \<Longrightarrow> dict_update d ws = d @ ws"
proof (induction ws arbitrary: d)
  case Nil
  then show ?case by (simp add: dict_update_Nil)
next
  case (Cons e ws)
  obtain k v where e: "e = (k, v)" by (cases e)
  have fresh: "k \<notin> fst ` set d"
    using Cons.prems(2) by (auto simp: e)
  have "dict_update (d @ [(k, v)]) ws = (d @ [(k, v)]) @ ws"
  proof (rule Cons.IH)
    show "distinct (map fst ws)" using Cons.prems(1) by simp
    show "fst ` set ws \<inter> fst ` set (d @ [(k, v)]) = {}"
      using Cons.prems by (auto simp: e)
  qed
  then show ?case
    by (simp add: e dict_update_Cons dict_set_fresh [OF fresh])
qed

lemma dict_update_empty: "distinct (map fst ws) \<Longrightarrow> dict_update [] ws = ws"
  using dict_update_fresh [of ws "[]"] by simp

lemma add_prefixed_join_item:
  "add_prefixed parent_key vw child_dict = dict_update vw (join_item (parent_key, VDict child_dict))"
  unfolding add_prefixed_def dict_update_def
  by (induction child_dict arbitrary: vw) auto

lemma join_step_join_item: "join_step vw e = dict_update vw (join_item e)"
proof (cases e)
  case (Pair parent_key child)
  show ?thesis
    by (cases child) (simp_all add: Pair add_prefixed_join_item dict_update_def)
qed

lemma foldl_join_step: "foldl join_step acc d = dict_update acc (join_writes d)"
proof (induction d arbitrary: acc)
  case Nil
  then show ?case by (simp add: join_writes_def dict_update_Nil)
next
  case (Cons e d)
  have jw: "join_writes (e # d) = join_item e @ join_writes d"
    by (simp add: join_writes_def)
  have "foldl join_step acc (e # d) = foldl join_step (join_step acc e) d"
    by simp
  also have "\<dots> = dict_update (join_step acc e) (join_writes d)"
    by (rule Cons.IH)
  also have "\<dots> = dict_update (dict_update acc (join_item e)) (join_writes d)"
    by (simp only: join_step_join_item)
  also have "\<dots> = dict_update acc (join_writes (e # d))"
    by (simp only: jw dict_update_append)
  finally show ?case .
qed

text \<open>The dictionary of lines 182 to 188 is its assignments, made in order.\<close>

lemma join_children_writes: "join_children d = dict_update [] (join_writes d)"
  by (simp add: join_children_def foldl_join_step)

lemma join_children_distinct:
  "distinct (map fst (join_writes d)) \<Longrightarrow> join_children d = join_writes d"
  by (simp add: join_children_writes dict_update_empty)

lemma distinct_prefixed:
  assumes "distinct (map fst v1)"
  shows "distinct (map fst (join_item (key, VDict v1)))"
proof -
  have "map fst (join_item (key, VDict v1)) = map (\<lambda>ck. key @ ''_'' @ ck) (map fst v1)"
    by (simp add: case_prod_beta)
  moreover have "inj_on (\<lambda>ck. key @ ''_'' @ ck) (set (map fst v1))"
    by (rule inj_onI) simp
  ultimately show ?thesis
    using assms by (simp only: distinct_map)
qed

lemma add_prefixed_distinct:
  "distinct (map fst v1) \<Longrightarrow> add_prefixed key [] v1 = join_item (key, VDict v1)"
  by (simp only: add_prefixed_join_item dict_update_empty [OF distinct_prefixed])

lemma leaves_append: "leaves (VDict (a @ b)) = leaves (VDict a) @ leaves (VDict b)"
  by simp

lemma leaves_join_item: "leaves (VDict (join_item e)) = leaves (VDict [e])"
proof (cases e)
  case (Pair parent_key child)
  show ?thesis
    by (cases child) (simp_all add: Pair comp_def case_prod_unfold)
qed

lemma leaves_join_writes: "leaves (VDict (join_writes d)) = leaves (VDict d)"
proof (induction d)
  case Nil
  then show ?case by (simp add: join_writes_def)
next
  case (Cons e d)
  have "leaves (VDict (join_writes (e # d)))
          = leaves (VDict (join_item e)) @ leaves (VDict (join_writes d))"
    by (simp add: join_writes_def)
  also have "\<dots> = leaves (VDict [e]) @ leaves (VDict d)"
    by (simp only: leaves_join_item Cons.IH)
  also have "\<dots> = leaves (VDict (e # d))"
    by simp
  finally show ?case .
qed

lemma distinct_short: "length (xs :: 'a list) \<le> 1 \<Longrightarrow> distinct xs"
  by (cases xs) auto

lemma leaves_reshape:
  assumes "length d > 1 \<longrightarrow> distinct (map fst (join_writes d))"
  shows "leaves (VDict (reshape g key d)) = leaves (VDict d)"
proof -
  let ?v1 = "if length d > 1 then join_children d else d"
  have v1: "?v1 = (if length d > 1 then join_writes d else d)"
    using assms by (simp add: join_children_distinct)
  have dist: "distinct (map fst ?v1)"
    unfolding v1 using assms by (simp add: distinct_short)
  have lv: "leaves (VDict ?v1) = leaves (VDict d)"
    unfolding v1 by (cases "1 < length d") (simp_all add: leaves_join_writes del: leaves.simps)
  have "leaves (VDict (add_prefixed key [] ?v1)) = leaves (VDict [(key, VDict ?v1)])"
    by (simp only: add_prefixed_distinct [OF dist] leaves_join_item)
  also have "\<dots> = leaves (VDict ?v1)"
    by simp
  finally have pre: "leaves (VDict (add_prefixed key [] ?v1)) = leaves (VDict d)"
    using lv by simp
  show ?thesis
    unfolding reshape_def Let_def using pre lv by (simp split: if_splits)
qed

text \<open>The result of a call is the assignments of the call, made in order.\<close>

lemma flatten_dict_level_acc:
  "foldl (\<lambda>output_dict (key, value).
            case value of
              VDict d \<Rightarrow> dict_update output_dict (flatten_dict g (reshape g key d))
            | _ \<Rightarrow> dict_set output_dict key value) acc t
     = dict_update acc (level_writes g t)"
proof (induction t arbitrary: acc)
  case Nil
  then show ?case by (simp add: level_writes_def dict_update_Nil)
next
  case (Cons e t)
  obtain key v where e: "e = (key, v)" by (cases e)
  have lw: "level_writes g (e # t)
              = (case v of VDict d \<Rightarrow> flatten_dict g (reshape g key d) | _ \<Rightarrow> [(key, v)])
                @ level_writes g t"
    by (simp add: level_writes_def e)
  show ?case
    unfolding lw dict_update_append
    by (cases v) (simp_all add: e Cons.IH dict_update_def)
qed

lemma flatten_dict_level_writes: "flatten_dict g t = dict_update [] (level_writes g t)"
  unfolding flatten_dict.simps [of g t] by (rule flatten_dict_level_acc)

lemma no_key_collision_values:
  "no_key_collision g r \<Longrightarrow> map snd (flatten_dict g r) = leaves (VDict r)"
proof (induction g r rule: flatten_dict.induct)
  case (1 gpuv target_dict)
  note nk = "1.prems" [unfolded no_key_collision.simps [of gpuv target_dict]]
  from nk have dist: "distinct (map fst (level_writes gpuv target_dict))"
    by (rule conjunct1)
  from nk have sub: "list_all (\<lambda>(key, value).
                  case value of
                    VDict d \<Rightarrow> (length d > 1 \<longrightarrow> distinct (map fst (join_writes d))) \<and>
                               no_key_collision gpuv (reshape gpuv key d)
                  | _ \<Rightarrow> True) target_dict"
    by (rule conjunct2)
  have eq: "flatten_dict gpuv target_dict = level_writes gpuv target_dict"
    by (simp add: flatten_dict_level_writes dict_update_empty [OF dist])
  have item: "map snd (case value of VDict d \<Rightarrow> flatten_dict gpuv (reshape gpuv key d)
                       | _ \<Rightarrow> [(key, value)]) = leaves value"
    if mem: "(key, value) \<in> set target_dict" for key "value"
  proof (cases "value")
    case (VDict d)
    from sub mem have j: "length d > 1 \<longrightarrow> distinct (map fst (join_writes d))"
      and n: "no_key_collision gpuv (reshape gpuv key d)"
      by (auto simp: list_all_iff VDict)
    have "map snd (flatten_dict gpuv (reshape gpuv key d)) = leaves (VDict (reshape gpuv key d))"
      using "1.IH" [OF mem refl VDict n] .
    also have "\<dots> = leaves (VDict d)"
      by (rule leaves_reshape [OF j])
    finally show ?thesis by (simp add: VDict)
  qed simp_all
  have "map snd (level_writes gpuv target_dict)
          = concat (map (\<lambda>(key, value). leaves value) target_dict)"
    unfolding level_writes_def map_concat map_map
    by (rule arg_cong [where f = concat], rule map_cong [OF refl]) (auto simp: item)
  then show ?case
    by (simp add: eq)
qed

subsection \<open>Facts about the gpuvsmi pass\<close>

lemma map_of_dict_set: "map_of (dict_set d k v) = (map_of d)(k \<mapsto> v)"
  by (induction d k v rule: dict_set.induct) (auto simp: fun_eq_iff)

lemma map_of_dict_update: "map_of (dict_update d other) k' = (case map_of (rev other) k' of Some v \<Rightarrow> Some v | None \<Rightarrow> map_of d k')"
  unfolding dict_update_def
proof (induction other arbitrary: d)
  case Nil
  then show ?case by simp
next
  case (Cons e other)
  obtain k v where e: "e = (k, v)" by (cases e)
  show ?case
    using Cons.IH [of "dict_set d k v"]
    by (auto simp: e map_of_dict_set map_of_append split: option.splits)
qed


lemma dict_set_twice: "dict_set (dict_set d k v) k v' = dict_set d k v'"
  by (induction d k v rule: dict_set.induct) auto

lemma map_of_remove_key:
  "map_of (filter (\<lambda>(k', v'). k' \<noteq> k) d) k2 = (if k2 = k then None else map_of d k2)"
  by (induction d) auto

lemma not_status_NA: "\<not> py_in ''AMDSMI_STATUS'' ''N/A''"
  by simp


text \<open>The first two assignments of a step amount to one, of the masked value.\<close>

lemma gpuv_step_eq:
  "gpuv_step g (key, value) =
     (let g2 = dict_set g key (gpuv_mask value)
      in if key \<in> set [''bdf'', ''uuid'']
         then dict_set (filter (\<lambda>(k', v'). k' \<noteq> key) g2) (''gpu_'' @ key) (gpuv_mask value)
         else g2)"
proof -
  have g2: "(case value of
               VStr s \<Rightarrow> if py_in ''AMDSMI_STATUS'' s
                         then dict_set (dict_set g key value) key (VStr ''N/A'')
                         else dict_set g key value
             | _ \<Rightarrow> dict_set g key value) = dict_set g key (gpuv_mask value)"
    by (cases "value") (simp_all add: gpuv_mask_def status_string_def dict_set_twice)
  have pop: "dict_pop (dict_set g key (gpuv_mask value)) key =
               Some (gpuv_mask value, filter (\<lambda>(k', v'). k' \<noteq> key) (dict_set g key (gpuv_mask value)))"
    by (simp add: dict_pop_def map_of_dict_set)
  show ?thesis
    unfolding gpuv_step.simps Let_def g2 pop by simp
qed

declare gpuv_step.simps [simp del]



lemma map_of_gpuv_step:
  "k \<notin> set gpuv_renamed \<Longrightarrow>
   map_of (gpuv_step g (key, value)) k = (if k = key then Some (gpuv_mask value) else map_of g k)"
  unfolding gpuv_step_eq Let_def
  by (auto simp: map_of_dict_set map_of_remove_key gpuv_renamed_def)

lemma gpuv_flat_snoc: "gpuv_flat (m @ [e]) = gpuv_step (gpuv_flat m) e"
  by (simp add: gpuv_flat_def)

lemma map_of_gpuv_flat:
  "distinct (map fst m) \<Longrightarrow> k \<notin> set gpuv_renamed \<Longrightarrow>
   map_of (gpuv_flat m) k = map_option gpuv_mask (map_of m k)"
proof (induction m rule: rev_induct)
  case Nil
  then show ?case by (simp add: gpuv_flat_def)
next
  case (snoc e m)
  obtain key x where e: "e = (key, x)" by (cases e)
  from snoc.prems have dist: "distinct (map fst m)" and fresh: "key \<notin> fst ` set m"
    by (auto simp: e)
  have none: "map_of m key = None"
    using fresh by (simp add: map_of_eq_None_iff)
  show ?case
    using snoc.IH [OF dist snoc.prems(2)] none
    by (auto simp: e gpuv_flat_snoc map_of_gpuv_step [OF snoc.prems(2)] map_add_def
             split: option.splits)
qed

lemma csv_merge_distinct:
  "distinct (map fst out) \<Longrightarrow> csv_merge g out i a d = Inr merged \<Longrightarrow> distinct (map fst merged)"
  by (auto simp: csv_merge_def Let_def distinct_dict_set distinct_dict_update
      split: if_splits pyval.splits)

lemma gpu_not_renamed: "''gpu'' \<notin> set gpuv_renamed"
  by (simp add: gpuv_renamed_def)

lemma gpuv_mask_VInt: "gpuv_mask (VInt i) = VInt i"
  by (simp add: gpuv_mask_def status_string_def)









subsection \<open>Facts about the logger\<close>

lemma self_output_mutate [simp]: "self_output (mutate_output st v) = v"
  by (simp add: self_output_def mutate_output_def)

lemma self_output_assign [simp]: "self_output (assign_output st v) = v"
  by (simp add: self_output_def assign_output_def)

lemma format_distinct:
  "is_csv_format st \<Longrightarrow> \<not> is_json_format st \<and> \<not> is_human_readable_format st"
  "is_json_format st \<Longrightarrow> \<not> is_csv_format st \<and> \<not> is_human_readable_format st"
  by (auto simp: is_csv_format_def is_json_format_def is_human_readable_format_def)

lemma compat_distinct:
  "is_gpuvsmi_compatibility st \<Longrightarrow> \<not> is_amdsmi_compatibility st \<and> \<not> is_rocmsmi_compatibility st"
  "is_rocmsmi_compatibility st \<Longrightarrow> \<not> is_amdsmi_compatibility st \<and> \<not> is_gpuvsmi_compatibility st"
  "is_amdsmi_compatibility st \<Longrightarrow> \<not> is_rocmsmi_compatibility st \<and> \<not> is_gpuvsmi_compatibility st"
  by (auto simp: is_gpuvsmi_compatibility_def is_amdsmi_compatibility_def
      is_rocmsmi_compatibility_def)

text \<open>What a store call that returns has left in \<open>self.output\<close>, branch by branch.\<close>

lemma store_output_amdsmi_csv_Inr:
  assumes "is_csv_format st"
    and "self_output st = VDict out"
    and "store_output_amdsmi st i a data = Inr st'"
  shows "\<exists>merged. csv_merge (is_gpuvsmi_compatibility st) out i a data = Inr merged \<and>
           self_output st' = VDict merged"
  using assms format_distinct(1) [OF assms(1)]
  by (auto simp: store_output_amdsmi_def split: sum.splits)

lemma store_output_gpuvsmi_csv_Inr:
  assumes "is_csv_format st"
    and "self_output st = VDict out"
    and "store_output_gpuvsmi st i a data = Inr st'"
  shows "\<exists>merged. csv_merge (is_gpuvsmi_compatibility st) out i a data = Inr merged \<and>
           self_output st' = VDict (gpuv_flat merged)"
  using assms format_distinct(1) [OF assms(1)]
  by (auto simp: store_output_gpuvsmi_def split: sum.splits)

lemma store_Inr_format:
  assumes "store_output_amdsmi st i a data = Inr st' \<or> store_output_gpuvsmi st i a data = Inr st'"
  shows "is_json_format st \<or> is_human_readable_format st \<or> is_csv_format st"
  using assms
  by (auto simp: store_output_amdsmi_def store_output_gpuvsmi_def split: if_splits)

lemma map_of_rev_distinct: "distinct (map fst xs) \<Longrightarrow> map_of (rev xs) = map_of xs"
  by (subst map_of_inject_set) (simp_all add: rev_map [symmetric])

lemma map_of_update_flatten:
  "map_of (dict_update d (flatten_dict g c)) k =
     (case map_of (flatten_dict g c) k of Some v \<Rightarrow> Some v | None \<Rightarrow> map_of d k)"
  by (simp add: map_of_dict_update map_of_rev_distinct [OF distinct_flatten_dict])

lemma csv_merge_gpu_value:
  assumes "csv_merge g out i a data = Inr merged"
  shows "map_of merged ''gpu'' =
           Some (case (if a = ''values'' \<or> is_dict data
                       then (case data of VDict d \<Rightarrow> map_of (flatten_dict g d) ''gpu''
                             | _ \<Rightarrow> None)
                       else if a = ''gpu'' then Some data else None) of
                   None \<Rightarrow> VInt i | Some v \<Rightarrow> v)"
proof (cases "a = ''values'' \<or> is_dict data")
  case True
  with assms obtain d where d: "data = VDict d"
    and m: "merged = dict_update (dict_set out ''gpu'' (VInt i)) (flatten_dict g d)"
    by (cases data) (auto simp: csv_merge_def Let_def)
  show ?thesis
    by (simp add: d m map_of_update_flatten map_of_dict_set split: option.splits)
next
  case False
  with assms have m: "merged = dict_set (dict_set out ''gpu'' (VInt i)) a data"
    by (auto simp: csv_merge_def Let_def)
  show ?thesis
    by (simp add: if_not_P [OF False] m map_of_dict_set)
qed

lemma amdsmi_json_gpu_value:
  assumes "is_json_format st \<or> is_human_readable_format st"
    and "self_output st = VDict out"
    and "store_output_amdsmi st i a data = Inr st'"
  shows "\<exists>out'. self_output st' = VDict out' \<and>
           map_of out' ''gpu'' =
             Some (case (if a = ''values'' \<and> is_dict data
                         then (case data of VDict d \<Rightarrow> map_of (rev d) ''gpu'' | _ \<Rightarrow> None)
                         else if a = ''gpu'' then Some data else None) of
                     None \<Rightarrow> VInt i | Some v \<Rightarrow> v)"
proof (cases "a = ''values'' \<and> is_dict data")
  case True
  then obtain d where d: "data = VDict d" by (cases data) auto
  from assms True have "st' = mutate_output st (VDict (dict_update (dict_set out ''gpu'' (VInt i)) d))"
    by (simp add: store_output_amdsmi_def Let_def d)
  moreover from True have "a = ''values''"
    by simp
  ultimately show ?thesis
    by (simp add: d map_of_dict_update map_of_dict_set split: option.splits)
next
  case False
  from assms False have "st' = mutate_output st (VDict (dict_set (dict_set out ''gpu'' (VInt i)) a data))"
    by (cases data) (auto simp: store_output_amdsmi_def Let_def)
  then show ?thesis
    by (simp add: map_of_dict_set if_not_P [OF False])
qed

lemma gpuvsmi_json_gpu_value:
  assumes "is_json_format st \<or> is_human_readable_format st"
    and "self_output st = VDict out"
    and "store_output_gpuvsmi st i a data = Inr st'"
  shows "\<exists>out'. self_output st' = VDict out' \<and>
           map_of out' ''gpu'' =
             Some (case (if a = ''gpu'' then Some data else None) of
                     None \<Rightarrow> VInt i | Some v \<Rightarrow> v)"
proof -
  from assms have "st' = mutate_output st (VDict (dict_set (dict_set out ''gpu'' (VInt i)) a data))"
    by (auto simp: store_output_gpuvsmi_def)
  then show ?thesis
    by (simp add: map_of_dict_set)
qed

lemma csv_gpu_value:
  assumes "is_csv_format st"
    and "csv_merge (is_gpuvsmi_compatibility st) out i a data = Inr merged"
  shows "map_of merged ''gpu'' =
           Some (case merge_writes_gpu st a data of None \<Rightarrow> VInt i | Some v \<Rightarrow> v)"
  using csv_merge_gpu_value [OF assms(2)] assms(1) by (simp add: merge_writes_gpu_def)

lemma amdsmi_json_gpu:
  assumes "is_amdsmi_compatibility st" and "\<not> is_csv_format st"
    and "is_json_format st \<or> is_human_readable_format st"
    and "self_output st = VDict out"
    and "store_output_amdsmi st i a data = Inr st'"
  shows "\<exists>out'. self_output st' = VDict out' \<and>
           map_of out' ''gpu'' =
             Some (case merge_writes_gpu st a data of None \<Rightarrow> VInt i | Some v \<Rightarrow> v)"
  using amdsmi_json_gpu_value [OF assms(3,4,5)] assms(1,2) by (simp add: merge_writes_gpu_def)

lemma gpuvsmi_json_gpu:
  assumes "\<not> is_amdsmi_compatibility st" and "\<not> is_csv_format st"
    and "is_json_format st \<or> is_human_readable_format st"
    and "self_output st = VDict out"
    and "store_output_gpuvsmi st i a data = Inr st'"
  shows "\<exists>out'. self_output st' = VDict out' \<and>
           map_of out' ''gpu'' =
             Some (case merge_writes_gpu st a data of None \<Rightarrow> VInt i | Some v \<Rightarrow> v)"
  using gpuvsmi_json_gpu_value [OF assms(3,4,5)] assms(1,2) by (simp add: merge_writes_gpu_def)

subsection \<open>Facts about the csv writer\<close>

lemma dict_to_list_conforming:
  "fst ` set d \<subseteq> set fns \<Longrightarrow> dict_to_list fns (VDict d) = Inr (row_cells fns d)"
  by (auto simp: dict_to_list_def row_cells_def list_ex_iff)

lemma dict_to_list_extra:
  "\<not> fst ` set d \<subseteq> set fns \<Longrightarrow> dict_to_list fns (VDict d) = Inl ValueError"
  by (auto simp: dict_to_list_def list_ex_iff)

lemma writerows_conforming:
  "\<forall>d \<in> set ds. fst ` set d \<subseteq> set fns \<Longrightarrow>
   writerows wr fns written (map VDict ds @ rs) =
     writerows wr fns (written @ concat (map (\<lambda>d. wr (row_cells fns d)) ds)) rs"
proof (induction ds arbitrary: written)
  case Nil
  then show ?case by simp
next
  case (Cons d ds)
  have "dict_to_list fns (VDict d) = Inr (row_cells fns d)"
    using Cons.prems by (simp add: dict_to_list_conforming)
  then show ?case
    using Cons.IH [of "written @ wr (row_cells fns d)"] Cons.prems by simp
qed

lemma writerows_all:
  assumes "\<forall>d \<in> set ds. fst ` set d \<subseteq> set fns"
  shows "writerows wr fns (writeheader wr fns) (map VDict ds) = (None, csv_rows wr fns ds)"
  using writerows_conforming [OF assms, of wr "writeheader wr fns" "[]"]
  by (simp add: csv_rows_def writeheader_def)

lemma writerows_stop:
  assumes "\<forall>d \<in> set pre. fst ` set d \<subseteq> set fns" and "\<not> fst ` set bad \<subseteq> set fns"
  shows "writerows wr fns (writeheader wr fns) (map VDict (pre @ bad # post))
           = (Some ValueError, csv_rows wr fns pre)"
  using writerows_conforming [OF assms(1), of wr "writeheader wr fns" "VDict bad # map VDict post"]
    dict_to_list_extra [OF assms(2)]
  by (simp add: csv_rows_def writeheader_def)

section \<open>The properties\<close>

subsection \<open>The flattening engine\<close>

text \<open>
  Claim C4, as the specification states it: every leaf of a record is still a value of
  the flattened record. It fails where two leaves are written under one key: a
  dictionary with a single item is entered without a prefix, so the two \<open>x\<close> below
  meet, the call assigns to \<open>x\<close> twice, and the second assignment overwrites the first.
\<close>

theorem flatten_dict_no_loss_counterexample:
  "VInt 1 \<in> set (leaves (VDict [(''a'', VDict [(''x'', VInt 1)]),
                                  (''b'', VDict [(''x'', VInt 2)])])) \<and>
   VInt 1 \<notin> snd ` set (flatten_dict False [(''a'', VDict [(''x'', VInt 1)]),
                                              (''b'', VDict [(''x'', VInt 2)])]) \<and>
   level_writes False [(''a'', VDict [(''x'', VInt 1)]), (''b'', VDict [(''x'', VInt 2)])]
     = [(''x'', VInt 1), (''x'', VInt 2)]"
proof -
  have "flatten_dict False [(''a'', VDict [(''x'', VInt 1)]), (''b'', VDict [(''x'', VInt 2)])]
          = [(''x'', VInt 2)]"
    by code_simp
  moreover have "level_writes False [(''a'', VDict [(''x'', VInt 1)]), (''b'', VDict [(''x'', VInt 2)])]
     = [(''x'', VInt 1), (''x'', VInt 2)]"
    by code_simp
  ultimately show ?thesis by simp
qed

text \<open>
  Claim C4, amended: the values of the flattened record are leaves of the record, each
  no more often than the record has it; and when no assignment of the run falls on a
  key that is already there, no leaf is lost: the values of the flattened record are
  the leaves of the record, one for one and in their order.
\<close>

theorem flatten_dict_no_loss:
  "mset (map snd (flatten_dict g r)) \<subseteq># mset (leaves (VDict r)) \<and>
   (no_key_collision g r \<longrightarrow> map snd (flatten_dict g r) = leaves (VDict r))"
  using vals_flatten_dict [of g r] no_key_collision_values [of g r] by simp

theorem flatten_dict_no_loss_witness:
  "no_key_collision True
     [(''gpu'', VInt 0),
      (''asic'', VDict [(''market_name'', VStr ''X'')]),
      (''power'', VDict [(''average_socket_power'', VInt 15), (''gfx_voltage'', VInt 900)]),
      (''usage'', VDict [(''gfx'', VDict [(''busy'', VInt 7)]), (''mm'', VList [VInt 22, VInt 0])])] \<and>
   flatten_dict True
     [(''gpu'', VInt 0),
      (''asic'', VDict [(''market_name'', VStr ''X'')]),
      (''power'', VDict [(''average_socket_power'', VInt 15), (''gfx_voltage'', VInt 900)]),
      (''usage'', VDict [(''gfx'', VDict [(''busy'', VInt 7)]), (''mm'', VList [VInt 22, VInt 0])])]
     = [(''gpu'', VInt 0), (''asic_market_name'', VStr ''X''),
        (''average_socket_power'', VInt 15), (''gfx_voltage'', VInt 900),
        (''gfx_busy'', VInt 7), (''mm'', VList [VInt 22, VInt 0])] \<and>
   map snd (flatten_dict True
     [(''gpu'', VInt 0),
      (''asic'', VDict [(''market_name'', VStr ''X'')]),
      (''power'', VDict [(''average_socket_power'', VInt 15), (''gfx_voltage'', VInt 900)]),
      (''usage'', VDict [(''gfx'', VDict [(''busy'', VInt 7)]), (''mm'', VList [VInt 22, VInt 0])])])
     = leaves (VDict
     [(''gpu'', VInt 0),
      (''asic'', VDict [(''market_name'', VStr ''X'')]),
      (''power'', VDict [(''average_socket_power'', VInt 15), (''gfx_voltage'', VInt 900)]),
      (''usage'', VDict [(''gfx'', VDict [(''busy'', VInt 7)]), (''mm'', VList [VInt 22, VInt 0])])])"
proof -
  let ?r = "[(''gpu'', VInt 0),
      (''asic'', VDict [(''market_name'', VStr ''X'')]),
      (''power'', VDict [(''average_socket_power'', VInt 15), (''gfx_voltage'', VInt 900)]),
      (''usage'', VDict [(''gfx'', VDict [(''busy'', VInt 7)]), (''mm'', VList [VInt 22, VInt 0])])]"
  have a: "no_key_collision True ?r"
    by code_simp
  have b: "flatten_dict True ?r
     = [(''gpu'', VInt 0), (''asic_market_name'', VStr ''X''),
        (''average_socket_power'', VInt 15), (''gfx_voltage'', VInt 900),
        (''gfx_busy'', VInt 7), (''mm'', VList [VInt 22, VInt 0])]"
    by code_simp
  from a flatten_dict_no_loss [of True ?r]
  have c: "map snd (flatten_dict True ?r) = leaves (VDict ?r)"
    by (elim conjE impE)
  from a b c show ?thesis by (intro conjI)
qed

text \<open>
  Claim C5: flattening a flattened record changes nothing, under either setting of the
  gpuvsmi flag. The flattened record has no dictionary among its values and no key
  twice, and \<open>flatten_dict\<close> copies such a record item by item.
\<close>

theorem flatten_dict_idempotent:
  "flatten_dict g (flatten_dict g r) = flatten_dict g r"
  by (rule flatten_dict_flat [OF flat_flatten_dict distinct_flatten_dict])

theorem flatten_dict_idempotent_witness:
  "flatten_dict True (flatten_dict True
     [(''asic'', VDict [(''market_name'', VStr ''X'')]),
      (''power'', VDict [(''average_socket_power'', VInt 15), (''gfx_voltage'', VInt 900)])])
   = [(''asic_market_name'', VStr ''X''), (''average_socket_power'', VInt 15),
      (''gfx_voltage'', VInt 900)]"
proof -
  have "flatten_dict True
     [(''asic'', VDict [(''market_name'', VStr ''X'')]),
      (''power'', VDict [(''average_socket_power'', VInt 15), (''gfx_voltage'', VInt 900)])]
   = [(''asic_market_name'', VStr ''X''), (''average_socket_power'', VInt 15),
      (''gfx_voltage'', VInt 900)]"
    by code_simp
  then show ?thesis
    using flatten_dict_idempotent
            [of True "[(''asic'', VDict [(''market_name'', VStr ''X'')]),
                       (''power'', VDict [(''average_socket_power'', VInt 15),
                                          (''gfx_voltage'', VInt 900)])]"]
    by simp
qed

subsection \<open>The store methods\<close>

text \<open>
  Claim C3, as the specification states it: under amdsmi and csv every store call
  passes its data through \<open>flatten_dict\<close> before the merge, whatever the key and the
  data. It fails for data that is no dictionary under a key other than \<open>values\<close>: the
  code stores the data as it is, where flattening it would raise.
\<close>

theorem amdsmi_csv_store_flattens_counterexample:
  "stored_record (store_output (\<lambda>h. h) (init ''amdsmi'' ''csv'' Stdout) 0 ''power'' (VInt 15))
     = Some (VDict [(''gpu'', VInt 0), (''power'', VInt 15)]) \<and>
   stored_record (store_always_flatten (init ''amdsmi'' ''csv'' Stdout) 0 (VInt 15)) = None"
  by (simp add: stored_record_def store_output_def store_output_amdsmi_def
      store_always_flatten_def csv_merge_def init_def self_output_def mutate_output_def
      is_json_format_def is_csv_format_def is_human_readable_format_def
      is_amdsmi_compatibility_def)

text \<open>
  Claim C3, amended: under amdsmi and csv, a store call on a record that is a
  dictionary passes its data through \<open>flatten_dict\<close> before the merge exactly when the
  key is \<open>values\<close> or the data is a dictionary (line 235); any other data is stored under
  its key as it is.
\<close>

theorem amdsmi_csv_store_flattens_maps:
  assumes "is_amdsmi_compatibility st" and "is_csv_format st" and "self_output st = VDict out"
  shows "store_output get_gpu_id st device_handle argument data =
     (if argument = ''values'' \<or> is_dict data
      then store_always_flatten st (get_gpu_id device_handle) data
      else Inr (mutate_output st
             (VDict (dict_set (dict_set out ''gpu'' (VInt (get_gpu_id device_handle)))
                       argument data))))"
  using assms format_distinct(1) [OF assms(2)]
  by (cases data)
     (simp_all add: store_output_def store_output_amdsmi_def store_always_flatten_def
        csv_merge_def Let_def)

theorem amdsmi_csv_store_flattens_maps_witness:
  "is_amdsmi_compatibility (init ''amdsmi'' ''csv'' Stdout) \<and>
   is_csv_format (init ''amdsmi'' ''csv'' Stdout) \<and>
   self_output (init ''amdsmi'' ''csv'' Stdout) = VDict [] \<and>
   store_output (\<lambda>h. h) (init ''amdsmi'' ''csv'' Stdout) 0 ''power''
       (VDict [(''average_socket_power'', VInt 15)])
     = store_always_flatten (init ''amdsmi'' ''csv'' Stdout) 0
         (VDict [(''average_socket_power'', VInt 15)])"
proof -
  have a: "is_amdsmi_compatibility (init ''amdsmi'' ''csv'' Stdout)"
    by (simp add: is_amdsmi_compatibility_def init_def)
  have b: "is_csv_format (init ''amdsmi'' ''csv'' Stdout)"
    by (simp add: is_csv_format_def init_def)
  have c: "self_output (init ''amdsmi'' ''csv'' Stdout) = VDict []"
    by (simp add: self_output_def init_def)
  show ?thesis
    using a b c
      amdsmi_csv_store_flattens_maps
        [OF a b c, of "\<lambda>h. h" 0 "''power''" "VDict [(''average_socket_power'', VInt 15)]"]
    by simp
qed

text \<open>
  Claim C8: with a format that is none of the three, a store call under amdsmi or
  gpuvsmi is to fail with the error of an unsupported format. The code fails, merges
  nothing and leaves the logger as it was, but the exception is the TypeError of calling
  the module \<open>amdsmi_cli_exceptions\<close>, raised while the argument of \<open>raise\<close> is
  evaluated, and the message of lines 242 and 289 never reaches the caller.
\<close>

theorem unsupported_format_raises_TypeError:
  assumes "format st \<notin> {''json'', ''csv'', ''human_readable''}"
    and "compatibility st \<in> {''amdsmi'', ''gpuvsmi''}"
  shows "store_output get_gpu_id st device_handle argument data = Inl (TypeError_not_callable, st)"
  using assms
  by (auto simp: store_output_def store_output_amdsmi_def store_output_gpuvsmi_def
      is_json_format_def is_csv_format_def is_human_readable_format_def
      is_amdsmi_compatibility_def is_rocmsmi_compatibility_def is_gpuvsmi_compatibility_def)

theorem unsupported_format_raises_TypeError_witness:
  "format (init ''amdsmi'' ''xml'' Stdout) \<notin> {''json'', ''csv'', ''human_readable''} \<and>
   compatibility (init ''amdsmi'' ''xml'' Stdout) \<in> {''amdsmi'', ''gpuvsmi''} \<and>
   store_output (\<lambda>h. h) (init ''amdsmi'' ''xml'' Stdout) 0 ''values'' (VDict [(''temperature'', VInt 40)])
     = Inl (TypeError_not_callable, init ''amdsmi'' ''xml'' Stdout)"
proof -
  have a: "format (init ''amdsmi'' ''xml'' Stdout) \<notin> {''json'', ''csv'', ''human_readable''}"
    by (simp add: init_def)
  have b: "compatibility (init ''amdsmi'' ''xml'' Stdout) \<in> {''amdsmi'', ''gpuvsmi''}"
    by (simp add: init_def)
  show ?thesis
    using a b unsupported_format_raises_TypeError [OF a b] by simp
qed

text \<open>
  Claim C9: under rocmsmi, in each of the three formats, a store call returns without
  error and leaves the whole logger as it was.
\<close>

theorem rocmsmi_store_is_noop:
  assumes "is_rocmsmi_compatibility st"
    and "format st \<in> {''json'', ''csv'', ''human_readable''}"
  shows "store_output get_gpu_id st device_handle argument data = Inr st"
  using assms compat_distinct(2) [OF assms(1)]
  by (auto simp: store_output_def store_output_rocmsmi_def is_json_format_def
      is_csv_format_def is_human_readable_format_def)

theorem rocmsmi_store_is_noop_witness:
  "is_rocmsmi_compatibility (init ''rocmsmi'' ''csv'' Stdout) \<and>
   format (init ''rocmsmi'' ''csv'' Stdout) \<in> {''json'', ''csv'', ''human_readable''} \<and>
   store_output (\<lambda>h. h) (init ''rocmsmi'' ''csv'' Stdout) 0 ''power''
     (VDict [(''average_socket_power'', VInt 15)]) = Inr (init ''rocmsmi'' ''csv'' Stdout)"
proof -
  have a: "is_rocmsmi_compatibility (init ''rocmsmi'' ''csv'' Stdout)"
    by (simp add: is_rocmsmi_compatibility_def init_def)
  have b: "format (init ''rocmsmi'' ''csv'' Stdout) \<in> {''json'', ''csv'', ''human_readable''}"
    by (simp add: init_def)
  show ?thesis
    using a b rocmsmi_store_is_noop [OF a b] by simp
qed




text \<open>
  Claim C2, as the specification states it: after a store call that returns, under any
  of the three compatibilities, \<open>self.output\<close> has the key \<open>gpu\<close>, bound to the id of
  the device. It fails under rocmsmi, where the store call does nothing: the record of a
  new logger is still empty after it. It also fails under amdsmi for a call that stores
  under the key \<open>gpu\<close> itself: the assignment of line 230 follows that of line 226 and
  overwrites the id.
\<close>

theorem store_binds_gpu_counterexample:
  "stored_record (store_output (\<lambda>h. h) (init ''rocmsmi'' ''json'' Stdout) 3 ''values''
                    (VDict [(''temperature'', VInt 40)]))
     = Some (VDict []) \<and>
   map_of ([] :: pydict) ''gpu'' = None \<and>
   stored_record (store_output (\<lambda>h. h) (init ''amdsmi'' ''json'' Stdout) 3 ''gpu'' (VStr ''x''))
     = Some (VDict [(''gpu'', VStr ''x'')])"
  by (simp add: stored_record_def store_output_def store_output_rocmsmi_def
      store_output_amdsmi_def init_def self_output_def mutate_output_def is_json_format_def
      is_amdsmi_compatibility_def is_rocmsmi_compatibility_def)

text \<open>
  Claim C2, amended: under amdsmi or gpuvsmi, a store call that returns, on a record that
  is a dictionary, leaves a dictionary in which \<open>gpu\<close> is bound: to the id of the device
  when the merge of the call assigns nothing to the key \<open>gpu\<close>, and otherwise to the
  value the merge assigns to it, masked under gpuvsmi and csv.
\<close>

theorem store_binds_gpu:
  assumes "is_amdsmi_compatibility st \<or> is_gpuvsmi_compatibility st"
    and "self_output st = VDict out" and "distinct (map fst out)"
    and "store_output get_gpu_id st device_handle argument data = Inr st'"
  shows "\<exists>out'. self_output st' = VDict out' \<and>
           map_of out' ''gpu'' =
             Some (case merge_writes_gpu st argument data of
                     None \<Rightarrow> VInt (get_gpu_id device_handle)
                   | Some v \<Rightarrow>
                       if is_gpuvsmi_compatibility st \<and> is_csv_format st
                       then gpuv_mask v else v)"
proof -
  let ?i = "get_gpu_id device_handle"
  let ?g = "is_gpuvsmi_compatibility st"
  let ?w = "merge_writes_gpu st argument data"
  have plain: "(case ?w of None \<Rightarrow> VInt ?i
                | Some v \<Rightarrow> if ?g \<and> is_csv_format st then gpuv_mask v else v)
                 = (case ?w of None \<Rightarrow> VInt ?i | Some v \<Rightarrow> v)"
    if "\<not> (?g \<and> is_csv_format st)"
    using that by (cases ?w) auto
  have masked: "(case ?w of None \<Rightarrow> VInt ?i
                | Some v \<Rightarrow> if ?g \<and> is_csv_format st then gpuv_mask v else v)
                 = gpuv_mask (case ?w of None \<Rightarrow> VInt ?i | Some v \<Rightarrow> v)"
    if "?g \<and> is_csv_format st"
    using that by (cases ?w) (simp_all add: gpuv_mask_VInt)
  from assms(1) show ?thesis
  proof
    assume am: "is_amdsmi_compatibility st"
    then have ng: "\<not> ?g"
      using compat_distinct(3) by blast
    from am have s: "store_output_amdsmi st ?i argument data = Inr st'"
      using assms(4) by (simp add: store_output_def)
    then have "is_json_format st \<or> is_human_readable_format st \<or> is_csv_format st"
      using store_Inr_format [of st ?i argument data st'] by simp
    then consider (j) "is_json_format st \<or> is_human_readable_format st" "\<not> is_csv_format st"
      | (c) "is_csv_format st"
      using format_distinct(1) by blast
    then show ?thesis
    proof cases
      case j
      show ?thesis
        using amdsmi_json_gpu [OF am j(2) j(1) assms(2) s] plain ng by simp
    next
      case c
      from store_output_amdsmi_csv_Inr [OF c assms(2) s] obtain merged
        where m: "csv_merge ?g out ?i argument data = Inr merged"
          and o: "self_output st' = VDict merged"
        by blast
      show ?thesis
        using o csv_gpu_value [OF c m] plain ng by simp
    qed
  next
    assume gp: "is_gpuvsmi_compatibility st"
    then have na: "\<not> is_amdsmi_compatibility st"
      using compat_distinct(1) by blast
    from gp have s: "store_output_gpuvsmi st ?i argument data = Inr st'"
      using assms(4) compat_distinct(1) [OF gp] by (simp add: store_output_def)
    then have "is_json_format st \<or> is_human_readable_format st \<or> is_csv_format st"
      using store_Inr_format [of st ?i argument data st'] by simp
    then consider (j) "is_json_format st \<or> is_human_readable_format st" "\<not> is_csv_format st"
      | (c) "is_csv_format st"
      using format_distinct(1) by blast
    then show ?thesis
    proof cases
      case j
      show ?thesis
        using gpuvsmi_json_gpu [OF na j(2) j(1) assms(2) s] plain j(2) by simp
    next
      case c
      from store_output_gpuvsmi_csv_Inr [OF c assms(2) s] obtain merged
        where m: "csv_merge ?g out ?i argument data = Inr merged"
          and o: "self_output st' = VDict (gpuv_flat merged)"
        by blast
      have dist: "distinct (map fst merged)"
        by (rule csv_merge_distinct [OF assms(3) m])
      have "map_of (gpuv_flat merged) ''gpu'' = map_option gpuv_mask (map_of merged ''gpu'')"
        by (rule map_of_gpuv_flat [OF dist gpu_not_renamed])
      then have "map_of (gpuv_flat merged) ''gpu''
                   = Some (gpuv_mask (case ?w of None \<Rightarrow> VInt ?i | Some v \<Rightarrow> v))"
        by (simp add: csv_gpu_value [OF c m])
      then show ?thesis
        using o masked gp c by simp
    qed
  qed
qed

theorem store_binds_gpu_witness:
  "is_amdsmi_compatibility (init ''amdsmi'' ''json'' Stdout) \<and>
   self_output (init ''amdsmi'' ''json'' Stdout) = VDict [] \<and>
   merge_writes_gpu (init ''amdsmi'' ''json'' Stdout) ''power'' (VDict [(''gpu'', VInt 9)]) = None \<and>
   stored_record (store_output (\<lambda>h. h) (init ''amdsmi'' ''json'' Stdout) 3 ''power''
                    (VDict [(''gpu'', VInt 9)]))
     = Some (VDict [(''gpu'', VInt 3), (''power'', VDict [(''gpu'', VInt 9)])]) \<and>
   map_of [(''gpu'', VInt 3), (''power'', VDict [(''gpu'', VInt 9)])] ''gpu'' = Some (VInt 3)"
proof -
  let ?st = "init ''amdsmi'' ''json'' Stdout"
  let ?out' = "[(''gpu'', VInt 3), (''power'', VDict [(''gpu'', VInt 9)])]"
  let ?st' = "mutate_output ?st (VDict ?out')"
  have a: "is_amdsmi_compatibility ?st \<or> is_gpuvsmi_compatibility ?st"
    by (simp add: is_amdsmi_compatibility_def init_def)
  have b: "self_output ?st = VDict []"
    by (simp add: self_output_def init_def)
  have c: "distinct (map fst ([] :: pydict))"
    by simp
  have d: "store_output (\<lambda>h. h) ?st (3::int) ''power'' (VDict [(''gpu'', VInt 9)]) = Inr ?st'"
    by (simp add: store_output_def store_output_amdsmi_def init_def self_output_def
        mutate_output_def is_json_format_def is_amdsmi_compatibility_def)
  have e: "merge_writes_gpu ?st ''power'' (VDict [(''gpu'', VInt 9)]) = None"
    by (simp add: merge_writes_gpu_def init_def is_csv_format_def is_amdsmi_compatibility_def)
  show ?thesis
    using a b d e store_binds_gpu [OF a b c d]
    by (simp add: stored_record_def is_amdsmi_compatibility_def init_def)
qed

subsection \<open>The emitters\<close>

text \<open>
  Claim C6, as the specification states it: the header is the key list of the first
  record, and a field of a later record that the first record lacks is dropped. It
  fails on the second half: \<open>csv.DictWriter\<close> is made with its default
  \<open>extrasaction='raise'\<close>, so the row of such a record raises ValueError. Below, two
  devices are stored, the second with a \<open>temperature\<close> the first has not, and the
  emitter raises and prints nothing, whatever text the writer makes of a row.
\<close>

theorem csv_extra_key_dropped_counterexample:
  "let st1 = projr (store_output (\<lambda>h. h) (init ''amdsmi'' ''csv'' Stdout) 0 ''power'' (VInt 5));
       st2 = projr (store_output (\<lambda>h. h) (store_multiple_device_output st1) 1 ''power'' (VInt 7));
       st3 = projr (store_output (\<lambda>h. h) st2 1 ''temperature'' (VInt 40));
       st4 = store_multiple_device_output st3
   in multiple_device_value st4 =
        [VDict [(''gpu'', VInt 0), (''power'', VInt 5)],
         VDict [(''gpu'', VInt 1), (''power'', VInt 7), (''temperature'', VInt 40)]] \<and>
      (\<forall>writerow. print_csv_output writerow st4 \<lparr>stdout = [], files = (\<lambda>p. [])\<rparr> True False
                    = Inl (ValueError, \<lparr>stdout = [], files = (\<lambda>p. [])\<rparr>))"
  by (simp add: store_output_def store_output_amdsmi_def csv_merge_def init_def
      self_output_def mutate_output_def assign_output_def store_multiple_device_output_def
      multiple_device_value_def print_csv_output_def stored_csv_output_def dict_to_list_def
      writeheader_def is_json_format_def is_csv_format_def is_human_readable_format_def
      is_amdsmi_compatibility_def is_gpuvsmi_compatibility_def Let_def)

text \<open>
  Claim C6, amended: for a list of records, the first of them \<open>first\<close>, the header is
  the key list of \<open>first\<close> in its order. When every key of every record is a key of
  \<open>first\<close>, the emitter writes the header and one row for each record, the cells in the
  order of the header and empty where the record lacks the key. When a record has a key
  that \<open>first\<close> lacks, the emitter raises ValueError at the first such record: nothing
  is printed on stdout, and a file has received the header and the rows before that
  record.
\<close>

theorem csv_header_is_first_record_keys:
  assumes "stored_csv_output st multiple = Some (map VDict (first # rest))"
  shows "((\<forall>d \<in> set rest. fst ` set d \<subseteq> fst ` set first) \<longrightarrow>
            print_csv_output writerow st w multiple False =
              Inr (case destination st of
                     Stdout \<Rightarrow>
                       w\<lparr>stdout := stdout w @
                           [if is_gpuvsmi_compatibility st
                            then filter (\<lambda>c. c \<noteq> CHR 0x22)
                                   (csv_rows writerow (map fst first) (first # rest))
                            else csv_rows writerow (map fst first) (first # rest)]\<rparr>
                   | File p \<Rightarrow>
                       w\<lparr>files := (files w)(p := files w p @
                           csv_rows writerow (map fst first) (first # rest))\<rparr>)) \<and>
         (rest = pre @ bad # post \<and> (\<forall>d \<in> set pre. fst ` set d \<subseteq> fst ` set first) \<and>
            \<not> fst ` set bad \<subseteq> fst ` set first \<longrightarrow>
            print_csv_output writerow st w multiple False =
              Inl (ValueError,
                   case destination st of
                     Stdout \<Rightarrow> w
                   | File p \<Rightarrow>
                       w\<lparr>files := (files w)(p := files w p @
                           csv_rows writerow (map fst first) (first # pre))\<rparr>))"
proof (intro conjI impI)
  let ?h = "map fst first"
  assume ok: "\<forall>d \<in> set rest. fst ` set d \<subseteq> fst ` set first"
  then have "\<forall>d \<in> set (first # rest). fst ` set d \<subseteq> set ?h"
    by simp
  then have "writerows writerow ?h (writeheader writerow ?h) (map VDict (first # rest))
               = (None, csv_rows writerow ?h (first # rest))"
    by (rule writerows_all)
  then have wr: "writerows writerow ?h (writeheader writerow ?h) (VDict first # map VDict rest)
               = (None, csv_rows writerow ?h (first # rest))"
    by simp
  from assms have s: "stored_csv_output st multiple = Some (VDict first # map VDict rest)"
    by simp
  show "print_csv_output writerow st w multiple False =
              Inr (case destination st of
                     Stdout \<Rightarrow>
                       w\<lparr>stdout := stdout w @
                           [if is_gpuvsmi_compatibility st
                            then filter (\<lambda>c. c \<noteq> CHR 0x22)
                                   (csv_rows writerow (map fst first) (first # rest))
                            else csv_rows writerow (map fst first) (first # rest)]\<rparr>
                   | File p \<Rightarrow>
                       w\<lparr>files := (files w)(p := files w p @
                           csv_rows writerow (map fst first) (first # rest))\<rparr>)"
    unfolding print_csv_output_def s
    by (simp add: wr Let_def del: writerows.simps split: destination.splits)
next
  let ?h = "map fst first"
  assume b: "rest = pre @ bad # post \<and> (\<forall>d \<in> set pre. fst ` set d \<subseteq> fst ` set first) \<and>
            \<not> fst ` set bad \<subseteq> fst ` set first"
  then have pre: "\<forall>d \<in> set (first # pre). fst ` set d \<subseteq> set ?h"
    and bad: "\<not> fst ` set bad \<subseteq> set ?h" and rest: "rest = pre @ bad # post"
    by simp_all
  have "writerows writerow ?h (writeheader writerow ?h) (map VDict ((first # pre) @ bad # post))
               = (Some ValueError, csv_rows writerow ?h (first # pre))"
    using pre bad by (rule writerows_stop)
  then have wr: "writerows writerow ?h (writeheader writerow ?h) (VDict first # map VDict rest)
               = (Some ValueError, csv_rows writerow ?h (first # pre))"
    by (simp add: rest)
  from assms have s: "stored_csv_output st multiple = Some (VDict first # map VDict rest)"
    by simp
  show "print_csv_output writerow st w multiple False =
              Inl (ValueError,
                   case destination st of
                     Stdout \<Rightarrow> w
                   | File p \<Rightarrow>
                       w\<lparr>files := (files w)(p := files w p @
                           csv_rows writerow (map fst first) (first # pre))\<rparr>)"
    unfolding print_csv_output_def s
    by (simp add: wr Let_def del: writerows.simps split: destination.splits)
qed

theorem csv_header_is_first_record_keys_witness:
  "(let st1 = projr (store_output (\<lambda>h. h) (init ''amdsmi'' ''csv'' Stdout) 0 ''power'' (VInt 5));
        st2 = projr (store_output (\<lambda>h. h) (store_multiple_device_output st1) 1 ''power'' (VInt 7));
        st3 = store_multiple_device_output st2
    in stored_csv_output st3 True =
         Some (map VDict [[(''gpu'', VInt 0), (''power'', VInt 5)],
                          [(''gpu'', VInt 1), (''power'', VInt 7)]]) \<and>
       (\<forall>writerow. print_csv_output writerow st3 \<lparr>stdout = [], files = (\<lambda>p. [])\<rparr> True False
                     = Inr \<lparr>stdout = [writerow [VStr ''gpu'', VStr ''power''] @
                                       writerow [VInt 0, VInt 5] @ writerow [VInt 1, VInt 7]],
                            files = (\<lambda>p. [])\<rparr>)) \<and>
   (let st1 = projr (store_output (\<lambda>h. h) (init ''amdsmi'' ''csv'' (File ''out.csv'')) 0 ''power''
                       (VInt 5));
        st2 = projr (store_output (\<lambda>h. h) (store_multiple_device_output st1) 1 ''power'' (VInt 7));
        st3 = projr (store_output (\<lambda>h. h) st2 1 ''temperature'' (VInt 40));
        st4 = store_multiple_device_output st3
    in stored_csv_output st4 True =
         Some (map VDict [[(''gpu'', VInt 0), (''power'', VInt 5)],
                          [(''gpu'', VInt 1), (''power'', VInt 7), (''temperature'', VInt 40)]]) \<and>
       (\<forall>writerow. print_csv_output writerow st4 \<lparr>stdout = [], files = (\<lambda>p. [])\<rparr> True False
                     = Inl (ValueError,
                            \<lparr>stdout = [],
                             files = (\<lambda>p. [])(''out.csv'' :=
                               writerow [VStr ''gpu'', VStr ''power''] @
                               writerow [VInt 0, VInt 5])\<rparr>)))"
proof -
  let ?a1 = "projr (store_output (\<lambda>h. h) (init ''amdsmi'' ''csv'' Stdout) (0::int) ''power'' (VInt 5))"
  let ?a2 = "projr (store_output (\<lambda>h. h) (store_multiple_device_output ?a1) (1::int) ''power'' (VInt 7))"
  let ?a3 = "store_multiple_device_output ?a2"
  let ?b1 = "projr (store_output (\<lambda>h. h) (init ''amdsmi'' ''csv'' (File ''out.csv'')) (0::int)
                     ''power'' (VInt 5))"
  let ?b2 = "projr (store_output (\<lambda>h. h) (store_multiple_device_output ?b1) (1::int) ''power'' (VInt 7))"
  let ?b3 = "projr (store_output (\<lambda>h. h) ?b2 (1::int) ''temperature'' (VInt 40))"
  let ?b4 = "store_multiple_device_output ?b3"
  let ?first = "[(''gpu'', VInt 0), (''power'', VInt 5)]"
  let ?second = "[(''gpu'', VInt 1), (''power'', VInt 7)]"
  let ?bad = "[(''gpu'', VInt 1), (''power'', VInt 7), (''temperature'', VInt 40)]"
  let ?w = "\<lparr>stdout = [], files = (\<lambda>p. [])\<rparr>"
  note session = store_output_def store_output_amdsmi_def csv_merge_def init_def
      self_output_def mutate_output_def assign_output_def store_multiple_device_output_def
      multiple_device_value_def stored_csv_output_def
      is_json_format_def is_csv_format_def is_human_readable_format_def
      is_amdsmi_compatibility_def is_gpuvsmi_compatibility_def Let_def
  have sa: "stored_csv_output ?a3 True = Some (map VDict (?first # [?second]))"
    by (simp add: session)
  have da: "destination ?a3 = Stdout" "\<not> is_gpuvsmi_compatibility ?a3"
    by (simp_all add: session)
  have pa: "print_csv_output writerow ?a3 ?w True False
             = Inr \<lparr>stdout = [writerow [VStr ''gpu'', VStr ''power''] @
                               writerow [VInt 0, VInt 5] @ writerow [VInt 1, VInt 7]],
                    files = (\<lambda>p. [])\<rparr>" for writerow
    using csv_header_is_first_record_keys [OF sa, of writerow ?w "[]" "[]" "[]"] da
    by (simp add: csv_rows_def row_cells_def)
  have sb: "stored_csv_output ?b4 True = Some (map VDict (?first # [?bad]))"
    by (simp add: session)
  have db: "destination ?b4 = File ''out.csv''"
    by (simp add: session)
  have pb: "print_csv_output writerow ?b4 ?w True False
             = Inl (ValueError,
                    \<lparr>stdout = [],
                     files = (\<lambda>p. [])(''out.csv'' :=
                       writerow [VStr ''gpu'', VStr ''power''] @ writerow [VInt 0, VInt 5])\<rparr>)"
    for writerow
    using csv_header_is_first_record_keys [OF sb, of writerow ?w "[]" ?bad "[]"] db
    by (simp add: csv_rows_def row_cells_def)
  show ?thesis
    unfolding Let_def using sa pa sb pb by simp
qed

text \<open>
  Claim C7: with the json format and a file as destination, the emitter appends the
  current record to the file on a tick, and on the flush (\<open>watch_output=True\<close>) opens the
  file for writing and dumps the whole of \<open>self.watch_output\<close>, so that the file holds
  that array alone. After three ticks (a sample is captured and the record emitted,
  three times) the file holds three blocks; after the flush it holds the array of the
  three samples, each a timestamp and the values, and no block.
\<close>

theorem watch_flush_overwrites_file:
  assumes "destination st = File p"
  shows "files (print_json_output dumps st w m False) p
           = files w p @ dumps (if m then VList (multiple_device_value st) else self_output st) \<and>
         files (print_json_output dumps st w m True) p = dumps (watch_value st) \<and>
         (watch_output st = [] \<longrightarrow>
            (let st1 = store_watch_output st False t1;
                 w1 = print_json_output dumps st1 w False False;
                 st2 = store_watch_output st1 False t2;
                 w2 = print_json_output dumps st2 w1 False False;
                 st3 = store_watch_output st2 False t3;
                 w3 = print_json_output dumps st3 w2 False False
             in files w3 p = files w p @ dumps (self_output st) @ dumps (self_output st) @
                               dumps (self_output st) \<and>
                files (print_json_output dumps st3 w3 False True) p =
                  dumps (VList [VDict [(''timestamp'', VInt t1), (''values'', self_output st)],
                                VDict [(''timestamp'', VInt t2), (''values'', self_output st)],
                                VDict [(''timestamp'', VInt t3), (''values'', self_output st)]])))"
  using assms
  by (simp add: print_json_output_def store_watch_output_def watch_value_def self_output_def
      Let_def)

theorem watch_flush_overwrites_file_witness:
  "(let st = projr (store_output (\<lambda>h. h) (init ''amdsmi'' ''json'' (File ''watch.json'')) 0
                     ''temperature'' (VInt 40))
    in destination st = File ''watch.json'' \<and> watch_output st = [] \<and>
       self_output st = VDict [(''gpu'', VInt 0), (''temperature'', VInt 40)] \<and>
       (\<forall>dumps.
          (let st1 = store_watch_output st False 100;
               w1 = print_json_output dumps st1 \<lparr>stdout = [], files = (\<lambda>p. [])\<rparr> False False;
               st2 = store_watch_output st1 False 101;
               w2 = print_json_output dumps st2 w1 False False;
               st3 = store_watch_output st2 False 102;
               w3 = print_json_output dumps st3 w2 False False
           in files w3 ''watch.json'' =
                dumps (VDict [(''gpu'', VInt 0), (''temperature'', VInt 40)]) @
                dumps (VDict [(''gpu'', VInt 0), (''temperature'', VInt 40)]) @
                dumps (VDict [(''gpu'', VInt 0), (''temperature'', VInt 40)]) \<and>
              files (print_json_output dumps st3 w3 False True) ''watch.json'' =
                dumps (VList
                  [VDict [(''timestamp'', VInt 100),
                          (''values'', VDict [(''gpu'', VInt 0), (''temperature'', VInt 40)])],
                   VDict [(''timestamp'', VInt 101),
                          (''values'', VDict [(''gpu'', VInt 0), (''temperature'', VInt 40)])],
                   VDict [(''timestamp'', VInt 102),
                          (''values'', VDict [(''gpu'', VInt 0), (''temperature'', VInt 40)])]]))))"
proof -
  let ?st = "projr (store_output (\<lambda>h. h) (init ''amdsmi'' ''json'' (File ''watch.json'')) (0::int)
                     ''temperature'' (VInt 40))"
  let ?w = "\<lparr>stdout = [], files = (\<lambda>p. [])\<rparr>"
  note session = store_output_def store_output_amdsmi_def init_def self_output_def
      mutate_output_def is_json_format_def is_amdsmi_compatibility_def Let_def
  have a: "destination ?st = File ''watch.json''"
    by (simp add: session)
  have b: "watch_output ?st = []"
    by (simp add: session)
  have c: "self_output ?st = VDict [(''gpu'', VInt 0), (''temperature'', VInt 40)]"
    by (simp add: session)
  have d: "let st1 = store_watch_output ?st False 100;
               w1 = print_json_output dumps st1 ?w False False;
               st2 = store_watch_output st1 False 101;
               w2 = print_json_output dumps st2 w1 False False;
               st3 = store_watch_output st2 False 102;
               w3 = print_json_output dumps st3 w2 False False
           in files w3 ''watch.json'' =
                dumps (VDict [(''gpu'', VInt 0), (''temperature'', VInt 40)]) @
                dumps (VDict [(''gpu'', VInt 0), (''temperature'', VInt 40)]) @
                dumps (VDict [(''gpu'', VInt 0), (''temperature'', VInt 40)]) \<and>
              files (print_json_output dumps st3 w3 False True) ''watch.json'' =
                dumps (VList
                  [VDict [(''timestamp'', VInt 100),
                          (''values'', VDict [(''gpu'', VInt 0), (''temperature'', VInt 40)])],
                   VDict [(''timestamp'', VInt 101),
                          (''values'', VDict [(''gpu'', VInt 0), (''temperature'', VInt 40)])],
                   VDict [(''timestamp'', VInt 102),
                          (''values'', VDict [(''gpu'', VInt 0), (''temperature'', VInt 40)])]])"
    for dumps
    using watch_flush_overwrites_file [OF a, of dumps ?w False 100 101 102] b
    unfolding c by simp
  show ?thesis
    unfolding Let_def using a b c d [unfolded Let_def] by simp
qed

text \<open>
  Claim C10: in the csv format with \<open>multiple_device_output=False\<close>, when \<open>self.output\<close>
  is a list, \<open>stored_csv_output\<close> is never bound (line 370 binds it for anything but a
  list), and the emitter fails on the unbound local at its first use; it writes
  nothing.
\<close>

theorem csv_emit_list_output_unbound:
  assumes "is_list (self_output st)"
  shows "print_csv_output writerow st w False False = Inl (UnboundLocalError, w)"
  using assms by (simp add: print_csv_output_def stored_csv_output_def)

theorem csv_emit_list_output_unbound_witness:
  "is_list (self_output (mutate_output (init ''amdsmi'' ''csv'' Stdout)
              (VList [VDict [(''gpu'', VInt 0)]]))) \<and>
   print_csv_output (\<lambda>cells. ''row'')
     (mutate_output (init ''amdsmi'' ''csv'' Stdout) (VList [VDict [(''gpu'', VInt 0)]]))
     \<lparr>stdout = [], files = (\<lambda>p. [])\<rparr> False False
   = Inl (UnboundLocalError, \<lparr>stdout = [], files = (\<lambda>p. [])\<rparr>)"
proof -
  have a: "is_list (self_output (mutate_output (init ''amdsmi'' ''csv'' Stdout)
              (VList [VDict [(''gpu'', VInt 0)]])))"
    by simp
  show ?thesis
    using a csv_emit_list_output_unbound [OF a, of "\<lambda>cells. ''row''" "\<lparr>stdout = [], files = (\<lambda>p. [])\<rparr>"]
    by simp
qed

end
